theory Spec2Isabelle
  imports Complex_Main "HOL-Library.AList" "HOL-Library.Log_Nat"
begin

section \<open>Numbers\<close>

text \<open>
  A TypeScript \<open>number\<close> is an IEEE 754 double.  Every finite double is a rational, so
  a number is a \<open>rat\<close>, and each arithmetic operation of the source (\<open>+\<close>, \<open>-\<close>,
  \<open>*\<close>, \<open>/\<close>) is the exact operation followed by \<open>fl\<close>, the rounding to the nearest
  number with a 53-bit significand, ties to the even significand.  Comparisons are exact.
  The exponent is not bounded: overflow to the infinities, the subnormal numbers and
  \<open>NaN\<close> are outside the model.

  \<open>rne y\<close> is the integer nearest to \<open>y\<close>, the even one of two equally near;
  \<open>binexp a\<close> is the binary exponent of a positive \<open>a\<close>, the \<open>e\<close> with
  \<open>2 powi e \<le> a < 2 powi (e + 1)\<close>.
\<close>

type_synonym number = rat

definition rne :: "rat \<Rightarrow> int" where
  "rne y =
     (let f = \<lfloor>y\<rfloor>; r = y - of_int f in
      if r < 1 / 2 then f else if 1 / 2 < r then f + 1 else if even f then f else f + 1)"

definition binexp :: "rat \<Rightarrow> int" where
  "binexp a =
     (if 1 \<le> a then bitlen \<lfloor>a\<rfloor> - 1
      else (let f = \<lfloor>1 / a\<rfloor> in - bitlen (if of_int f = 1 / a then f - 1 else f)))"

definition fl :: "rat \<Rightarrow> number" where
  "fl x =
     (if x = 0 then 0
      else (let a = \<bar>x\<bar>; u = 2 powi (binexp a - 52) in sgn x * (of_int (rne (a / u)) * u)))"

definition fadd :: "number \<Rightarrow> number \<Rightarrow> number" where
  "fadd a b = fl (a + b)"

definition fsub :: "number \<Rightarrow> number \<Rightarrow> number" where
  "fsub a b = fl (a - b)"

definition fmul :: "number \<Rightarrow> number \<Rightarrow> number" where
  "fmul a b = fl (a * b)"

definition fdiv :: "number \<Rightarrow> number \<Rightarrow> number" where
  "fdiv a b = fl (a / b)"

section \<open>Data model (types/shared.ts, decision-actor/model.ts)\<close>

text \<open>
  Field names are the source's, except where a name is a HOL constant (\<open>id\<close>,
  \<open>min\<close>, \<open>max\<close>) or is used by two interfaces (the fields of \<open>Decision\<close> carry the
  prefix \<open>d_\<close>).
\<close>

datatype marketplace = ebay | craigslist | facebook

record Listing =
  id' :: string
  title :: string
  price :: number
  url :: string
  marketplace :: marketplace
  category :: string
  timestamp :: string

record ScoresBreakdown =
  sb_historical :: number
  sb_msrp :: number
  sb_scarcity :: number
  sb_ratio :: number

record EvaluatedListing = Listing +
  is_undervalued :: bool
  score :: number
  estimated_resale :: number
  profit_potential :: number
  profit_margin :: number
  reasoning :: string
  scores_breakdown :: ScoresBreakdown

datatype action = BUY | SKIP

text \<open>
  The reasoning of a decision is a template literal.  It is kept as the sequence of its
  parts: literal text, a number interpolated as it is (\<open>${x}\<close>) and a number
  interpolated through \<open>toFixed(1)\<close>.
\<close>

datatype piece = Lit string | Num number | Fixed1 number

record Decision =
  action :: action
  item_id :: string
  d_title :: string
  d_price :: number
  d_score :: number
  d_profit_potential :: number
  d_reasoning :: "piece list"
  d_timestamp :: string

record AgentStats =
  listings_scanned :: number
  items_purchased :: number
  items_listed :: number
  total_invested :: number
  potential_revenue :: number
  expected_profit :: number
  expected_roi :: number

text \<open>
  \<open>purchasedIds\<close> is a JavaScript \<open>Set<string>\<close>: its elements in insertion order,
  none twice.
\<close>

record DecisionActorState =
  budget :: number
  purchasedIds :: "string list"
  stats :: AgentStats

text \<open>The literal \<open>0.20\<close>: the double nearest to one fifth.\<close>

definition MIN_PROFIT_MARGIN :: number where
  "MIN_PROFIT_MARGIN = fl (1 / 5)"

definition MIN_PROFIT :: number where
  "MIN_PROFIT = 50"

definition createInitialState :: DecisionActorState where
  "createInitialState =
     \<lparr>budget = 5000, purchasedIds = [],
      stats = \<lparr>listings_scanned = 0, items_purchased = 0, items_listed = 0,
               total_invested = 0, potential_revenue = 0, expected_profit = 0,
               expected_roi = 0\<rparr>\<rparr>"

definition validateBudget :: "number \<Rightarrow> number \<Rightarrow> bool" where
  "validateBudget p currentBudget =
     (if currentBudget \<le> 0 then False else p \<le> currentBudget)"

definition addPurchasedId :: "string \<Rightarrow> DecisionActorState \<Rightarrow> DecisionActorState" where
  "addPurchasedId i state =
     (if i \<in> set (purchasedIds state) then state
      else state\<lparr>purchasedIds := purchasedIds state @ [i]\<rparr>)"

definition hasPurchased :: "string \<Rightarrow> DecisionActorState \<Rightarrow> bool" where
  "hasPurchased i state = (i \<in> set (purchasedIds state))"

definition updateStats :: "Decision \<Rightarrow> DecisionActorState \<Rightarrow> DecisionActorState" where
  "updateStats decision state =
     (if action decision = BUY then
        (let st0 = stats state;
             st1 = st0\<lparr>items_purchased := fadd (items_purchased st0) 1\<rparr>;
             st2 = st1\<lparr>total_invested := fadd (total_invested st1) (d_price decision)\<rparr>;
             st3 = st2\<lparr>expected_profit :=
                        fadd (expected_profit st2) (d_profit_potential decision)\<rparr>;
             st4 = st3\<lparr>potential_revenue :=
                        fadd (potential_revenue st3)
                          (fadd (d_price decision) (d_profit_potential decision))\<rparr>;
             st5 = (if total_invested st4 > 0
                    then st4\<lparr>expected_roi :=
                           fmul (fdiv (expected_profit st4) (total_invested st4)) 100\<rparr>
                    else st4)
         in state\<lparr>stats := st5\<rparr>)
      else state)"

section \<open>Decision engine (decision-actor/controller.ts)\<close>

text \<open>
  \<open>new Date().toISOString()\<close> reads the wall clock; the reading is an argument.
\<close>

definition skip_decision :: "EvaluatedListing \<Rightarrow> piece list \<Rightarrow> string \<Rightarrow> Decision" where
  "skip_decision item why ts =
     \<lparr>action = SKIP, item_id = id' item, d_title = title item, d_price = price item,
      d_score = score item, d_profit_potential = profit_potential item,
      d_reasoning = why, d_timestamp = ts\<rparr>"

definition buy_decision :: "EvaluatedListing \<Rightarrow> piece list \<Rightarrow> string \<Rightarrow> Decision" where
  "buy_decision item why ts =
     \<lparr>action = BUY, item_id = id' item, d_title = title item, d_price = price item,
      d_score = score item, d_profit_potential = profit_potential item,
      d_reasoning = why, d_timestamp = ts\<rparr>"

definition reason_purchased :: "piece list" where
  "reason_purchased = [Lit ''Already purchased this item'']"

definition reason_budget :: "number \<Rightarrow> number \<Rightarrow> piece list" where
  "reason_budget p b = [Lit ''Exceeds budget: $'', Num p, Lit '' > $'', Num b]"

definition reason_margin :: "number \<Rightarrow> piece list" where
  "reason_margin m =
     [Lit ''Profit margin too low: '', Fixed1 (fmul m 100), Lit ''% < '',
      Fixed1 (fmul MIN_PROFIT_MARGIN 100), Lit ''%'']"

definition reason_profit :: "number \<Rightarrow> piece list" where
  "reason_profit pp = [Lit ''Profit amount too low: $'', Num pp, Lit '' < $'', Num MIN_PROFIT]"

definition reason_buy :: "number \<Rightarrow> number \<Rightarrow> number \<Rightarrow> piece list" where
  "reason_buy pp m sc =
     [Lit ''Strong opportunity: Profit: $'', Num pp, Lit '' ('', Fixed1 (fmul m 100),
      Lit ''% margin), Score: '', Num sc]"

definition evaluateOpportunity ::
  "EvaluatedListing \<Rightarrow> DecisionActorState \<Rightarrow> string \<Rightarrow> Decision" where
  "evaluateOpportunity item state ts =
     (if hasPurchased (id' item) state then skip_decision item reason_purchased ts
      else if \<not> validateBudget (price item) (budget state)
        then skip_decision item (reason_budget (price item) (budget state)) ts
      else if profit_margin item < MIN_PROFIT_MARGIN
        then skip_decision item (reason_margin (profit_margin item)) ts
      else if profit_potential item < MIN_PROFIT
        then skip_decision item (reason_profit (profit_potential item)) ts
      else buy_decision item
             (reason_buy (profit_potential item) (profit_margin item) (score item)) ts)"

text \<open>
  The body of the \<open>for\<close> loop of \<open>makeDecisions\<close>: the state after one listing.
\<close>

definition apply_decision ::
  "EvaluatedListing \<Rightarrow> Decision \<Rightarrow> DecisionActorState \<Rightarrow> DecisionActorState" where
  "apply_decision item decision state =
     (if action decision = BUY then
        (let s1 = addPurchasedId (id' item) state;
             s2 = updateStats decision s1
         in s2\<lparr>budget := fsub (budget s2) (d_price decision)\<rparr>)
      else state)"

text \<open>
  The loop itself; \<open>clock n\<close> is the clock reading of the \<open>n\<close>-th iteration.
\<close>

fun makeDecisions_loop ::
  "(nat \<Rightarrow> string) \<Rightarrow> nat \<Rightarrow> EvaluatedListing list \<Rightarrow> DecisionActorState
     \<Rightarrow> Decision list \<times> DecisionActorState" where
  "makeDecisions_loop clock n [] state = ([], state)"
| "makeDecisions_loop clock n (item # rest) state =
     (let decision = evaluateOpportunity item state (clock n);
          state' = apply_decision item decision state;
          (ds, final) = makeDecisions_loop clock (Suc n) rest state'
      in (decision # ds, final))"

definition fresh_state :: "number \<Rightarrow> DecisionActorState" where
  "fresh_state b =
     \<lparr>budget = b, purchasedIds = [],
      stats = \<lparr>listings_scanned = 0, items_purchased = 0, items_listed = 0,
               total_invested = 0, potential_revenue = 0, expected_profit = 0,
               expected_roi = 0\<rparr>\<rparr>"

text \<open>
  \<open>existingState || {budget, ...}\<close>: the state given, or a temporary one built from the
  \<open>budget\<close> argument.  The result is the list of decisions and the state the loop leaves
  (the object the caller passed, after its mutation).
\<close>

definition makeDecisions ::
  "EvaluatedListing list \<Rightarrow> number \<Rightarrow> (nat \<Rightarrow> string) \<Rightarrow> DecisionActorState option
     \<Rightarrow> Decision list \<times> DecisionActorState" where
  "makeDecisions evaluated b clock existingState =
     makeDecisions_loop clock 0 evaluated
       (case existingState of Some s \<Rightarrow> s | None \<Rightarrow> fresh_state b)"

text \<open>
  \<open>processPurchases\<close> hands every BUY decision's listing to the transaction actor and
  then to the inventory actor.  Both are other actors; the result here is the list of
  listings handed over, in order.  \<open>new Map(evaluated.map(...))\<close> keeps the last listing
  of an id; a decision whose id is not in the map is passed over.
\<close>

definition processPurchases ::
  "Decision list \<Rightarrow> EvaluatedListing list \<Rightarrow> EvaluatedListing list" where
  "processPurchases decisions evaluated =
     (let buyDecisions = filter (\<lambda>d. action d = BUY) decisions;
          evaluatedMap = map_of (rev (map (\<lambda>item. (id' item, item)) evaluated))
      in List.map_filter (\<lambda>d. evaluatedMap (item_id d)) buyDecisions)"

section \<open>The decision actor (decision-actor/index.ts)\<close>

text \<open>
  The actor holds its state in memory and writes a copy to its storage after each
  operation that changes it.  \<open>Partial<AgentConfig>\<close> has every field optional; an
  absent field and an \<open>undefined\<close> argument are \<open>None\<close>.
\<close>

record AgentConfig =
  cfg_budget :: "number option"
  minProfitMargin :: "number option"
  minProfit :: "number option"
  maxPerMarketplace :: "number option"
  cfg_category :: "string option"

record DecisionActor =
  actorState :: DecisionActorState
  storage :: "DecisionActorState option"

definition saveState :: "DecisionActor \<Rightarrow> DecisionActor" where
  "saveState a = a\<lparr>storage := Some (actorState a)\<rparr>"

definition DecisionActor_makeDecisions ::
  "EvaluatedListing list \<Rightarrow> number option \<Rightarrow> (nat \<Rightarrow> string) \<Rightarrow> DecisionActor
     \<Rightarrow> Decision list \<times> EvaluatedListing list \<times> DecisionActor" where
  "DecisionActor_makeDecisions evaluated b clock a =
     (let st1 = (case b of Some v \<Rightarrow> (actorState a)\<lparr>budget := v\<rparr> | None \<Rightarrow> actorState a);
          (decisions, st2) = makeDecisions evaluated (budget st1) clock (Some st1);
          st3 = st2\<lparr>stats := (stats st2)\<lparr>listings_scanned :=
                   fadd (listings_scanned (stats st2)) (of_nat (length evaluated))\<rparr>\<rparr>;
          handed = processPurchases decisions evaluated
      in (decisions, handed, saveState (a\<lparr>actorState := st3\<rparr>)))"

definition getStats :: "DecisionActor \<Rightarrow> AgentStats \<times> DecisionActor" where
  "getStats a = (stats (actorState a), a)"

definition updateConfig :: "AgentConfig \<Rightarrow> DecisionActor \<Rightarrow> DecisionActor" where
  "updateConfig config a =
     saveState (case cfg_budget config of
                  Some v \<Rightarrow> a\<lparr>actorState := (actorState a)\<lparr>budget := v\<rparr>\<rparr>
                | None \<Rightarrow> a)"

definition resetState :: "DecisionActor \<Rightarrow> DecisionActor" where
  "resetState a = saveState (a\<lparr>actorState := createInitialState\<rparr>)"

text \<open>
  The constructor: the actor starts from the initial state, or from the state found in
  its storage.  \<open>new Set(stored.purchasedIds)\<close> keeps the first occurrence of each id.
\<close>

definition set_of_array :: "string list \<Rightarrow> string list" where
  "set_of_array xs = fold (\<lambda>i acc. if i \<in> set acc then acc else acc @ [i]) xs []"

definition new_DecisionActor :: "DecisionActorState option \<Rightarrow> DecisionActor" where
  "new_DecisionActor stored =
     \<lparr>actorState =
        (case stored of
           Some p \<Rightarrow> \<lparr>budget = budget p, purchasedIds = set_of_array (purchasedIds p),
                      stats = stats p\<rparr>
         | None \<Rightarrow> createInitialState),
      storage = stored\<rparr>"

text \<open>
  A session of the actor: decision batches one after the other, each with its listings,
  its budget argument and its clock.  The result is every decision made, in order, and
  the actor at the end.
\<close>

fun run_batches ::
  "DecisionActor \<Rightarrow> (EvaluatedListing list \<times> number option \<times> (nat \<Rightarrow> string)) list
     \<Rightarrow> Decision list \<times> DecisionActor" where
  "run_batches a [] = ([], a)"
| "run_batches a ((evaluated, b, clock) # rest) =
     (let (ds, handed, a1) = DecisionActor_makeDecisions evaluated b clock a;
          (ds', a2) = run_batches a1 rest
      in (ds @ ds', a2))"

definition buys :: "Decision list \<Rightarrow> Decision list" where
  "buys ds = filter (\<lambda>d. action d = BUY) ds"

section \<open>Valuation scores (valuation-service/controller.ts)\<close>

record HistoricalData =
  avg :: number
  min' :: number
  max' :: number
  msrp :: number

definition calculateHistoricalScore :: "number \<Rightarrow> HistoricalData \<Rightarrow> number" where
  "calculateHistoricalScore current historical =
     (let mn = min' historical; mx = max' historical in
      if mn = mx then 100
      else if current \<le> mn then 100
      else if current \<ge> mx then 0
      else (let sc = fmul 100 (fsub 1 (fdiv (fsub current mn) (fsub mx mn)))
            in max 0 (min 100 sc)))"

definition calculateMSRPScore :: "number \<Rightarrow> number \<Rightarrow> number" where
  "calculateMSRPScore current m =
     (if m = 0 then 0
      else if current \<ge> m then 0
      else (let ratio = fdiv current m in
            if ratio \<le> 1 / 2 then 100
            else (let sc = fmul 100 (fsub 1 (fdiv (fsub ratio (1 / 2)) (1 / 2)))
                  in max 0 (min 100 sc))))"

section \<open>Product keys (valuation-service/controller.ts)\<close>

text \<open>
  A title is the list of the bytes of its UTF-8 encoding.  Every byte of a character
  outside ASCII is 128 or more, so \<open>includes\<close> of an ASCII keyword and \<open>split(' ')\<close> find
  in the bytes what they find in the string.  \<open>String.prototype.toLowerCase\<close> is the
  platform's Unicode mapping; it is the parameter \<open>lower\<close> of the functions below.  On a
  title of ASCII characters it is \<open>ascii_toLowerCase\<close>: the letters \<open>A\<close> to \<open>Z\<close> go to
  \<open>a\<close> to \<open>z\<close>, every other character stays.
\<close>

definition ascii_toLowerCase_char :: "char \<Rightarrow> char" where
  "ascii_toLowerCase_char c =
     (case map_of (zip ''ABCDEFGHIJKLMNOPQRSTUVWXYZ'' ''abcdefghijklmnopqrstuvwxyz'') c of
        Some l \<Rightarrow> l
      | None \<Rightarrow> c)"

definition ascii_toLowerCase :: "string \<Rightarrow> string" where
  "ascii_toLowerCase s = map ascii_toLowerCase_char s"

text \<open>\<open>s.includes(kw)\<close>: \<open>kw\<close> occurs in \<open>s\<close> as a contiguous run.\<close>

fun includes_str :: "string \<Rightarrow> string \<Rightarrow> bool" where
  "includes_str [] kw = (kw = [])"
| "includes_str (c # cs) kw = (take (length kw) (c # cs) = kw \<or> includes_str cs kw)"

text \<open>\<open>title.split(' ')[0]\<close>: the text before the first space character.\<close>

definition split_first :: "string \<Rightarrow> string" where
  "split_first s = takeWhile (\<lambda>c. c \<noteq> CHR '' '') s"

definition extractProductKey :: "(string \<Rightarrow> string) \<Rightarrow> string \<Rightarrow> string" where
  "extractProductKey lower t =
     (let titleLower = lower t in
      if includes_str titleLower ''iphone'' then ''iphone''
      else if includes_str titleLower ''macbook'' then ''macbook''
      else if includes_str titleLower ''ps5'' then ''ps5''
      else if includes_str titleLower ''laptop'' then ''laptop''
      else if includes_str titleLower ''tv'' then ''tv''
      else (let firstWord = split_first t in
            if firstWord \<noteq> [] then lower firstWord else ''unknown''))"

text \<open>
  The specification's wording of the same function, for comparison: the keywords in their
  fixed order, then the first whitespace-delimited token, then \<open>unknown\<close> for the empty
  title.  Whitespace is the ASCII white space of ECMAScript: tab, line feed, vertical
  tab, form feed, carriage return and space.
\<close>

definition known_keywords :: "string list" where
  "known_keywords = [''iphone'', ''macbook'', ''ps5'', ''laptop'', ''tv'']"

definition is_whitespace :: "char \<Rightarrow> bool" where
  "is_whitespace c = ((of_char c :: nat) \<in> {9, 10, 11, 12, 13, 32})"

definition spec_first_token :: "string \<Rightarrow> string" where
  "spec_first_token s = takeWhile (\<lambda>c. \<not> is_whitespace c) (dropWhile is_whitespace s)"

definition spec_extractProductKey :: "(string \<Rightarrow> string) \<Rightarrow> string \<Rightarrow> string" where
  "spec_extractProductKey lower t =
     (case find (\<lambda>k. includes_str (lower t) k) known_keywords of
        Some k \<Rightarrow> k
      | None \<Rightarrow> if t = [] then ''unknown'' else lower (spec_first_token t))"

section \<open>Inventory (inventory-actor/types.ts, model.ts, controller.ts)\<close>

datatype item_status = purchased | listed | sold

record InventoryItem = EvaluatedListing +
  purchase_date :: string
  status :: item_status
  resale_price :: "number option"
  listed_date :: "string option"

text \<open>
  \<open>inventory\<close> is a JavaScript \<open>Map\<close>: its entries in insertion order, no key twice;
  \<open>Map.set\<close> is \<open>AList.update\<close> (an existing key keeps its place, a new one goes last)
  and \<open>Map.get\<close> is \<open>map_of\<close>.  The entries are taken by value, so every key holds an
  object of its own.  \<open>listedIds\<close> is a \<open>Set\<close>.  The bucket \<open>FLIPPER_INVENTORY\<close> is a
  key-value store, written and never read here.
\<close>

record InventoryState =
  inventory :: "(string \<times> InventoryItem) list"
  listedIds :: "string list"

type_synonym bucket = "string \<Rightarrow> InventoryItem option"

datatype inventory_error = ItemNotFound

definition set_add :: "string \<Rightarrow> string list \<Rightarrow> string list" where
  "set_add i xs = (if i \<in> set xs then xs else xs @ [i])"

definition addToInventory ::
  "InventoryItem \<Rightarrow> InventoryState \<Rightarrow> bucket \<Rightarrow> InventoryState \<times> bucket" where
  "addToInventory item state b =
     (state\<lparr>inventory := AList.update (id' item) item (inventory state)\<rparr>,
      b(id' item \<mapsto> item))"

definition getInventory :: "InventoryState \<Rightarrow> InventoryItem list" where
  "getInventory state = map snd (inventory state)"

definition updateItemStatus ::
  "string \<Rightarrow> item_status \<Rightarrow> InventoryState \<Rightarrow> bucket \<Rightarrow> string
     \<Rightarrow> inventory_error + (InventoryState \<times> bucket)" where
  "updateItemStatus i st state b now =
     (case map_of (inventory state) i of
        None \<Rightarrow> Inl ItemNotFound
      | Some item \<Rightarrow>
          (let item1 = item\<lparr>status := st\<rparr>;
               item2 = (if st = listed then item1\<lparr>listed_date := Some now\<rparr> else item1);
               ids = (if st = listed then set_add i (listedIds state) else listedIds state)
           in Inr (\<lparr>inventory = AList.update i item2 (inventory state), listedIds = ids\<rparr>,
                   b(i \<mapsto> item2))))"

definition processNewPurchase ::
  "EvaluatedListing \<Rightarrow> InventoryState \<Rightarrow> bucket \<Rightarrow> string
     \<Rightarrow> InventoryItem \<times> InventoryState \<times> bucket" where
  "processNewPurchase item state b now =
     (let inventoryItem =
            EvaluatedListing.extend item
              (InventoryItem.fields now purchased None None)
      in (inventoryItem, addToInventory inventoryItem state b))"

definition createReListing :: "InventoryItem \<Rightarrow> string \<Rightarrow> Listing" where
  "createReListing item now =
     \<lparr>id' = ''resale_'' @ id' item, title = title item, price = estimated_resale item,
      url = url item, marketplace = marketplace item, category = category item,
      timestamp = now\<rparr>"

text \<open>
  The \<open>for\<close> loop of \<open>relistItems\<close> over the purchased items found before it starts.
  Iteration \<open>n\<close> reads the clock twice: \<open>clock (2 * n)\<close> in \<open>createReListing\<close> and
  \<open>clock (2 * n + 1)\<close> in \<open>updateItemStatus\<close>.  An error thrown by
  \<open>updateItemStatus\<close> ends the loop: the listings made so far are lost, the state and
  the bucket stay as the earlier iterations left them.
\<close>

fun relist_loop ::
  "(nat \<Rightarrow> string) \<Rightarrow> nat \<Rightarrow> InventoryItem list \<Rightarrow> Listing list \<Rightarrow> InventoryState \<Rightarrow> bucket
     \<Rightarrow> (inventory_error \<times> InventoryState \<times> bucket)
         + (Listing list \<times> InventoryState \<times> bucket)" where
  "relist_loop clock n [] listings state b = Inr (listings, state, b)"
| "relist_loop clock n (item # rest) listings state b =
     (let listing = createReListing item (clock (2 * n));
          listings' = listings @ [listing]
      in case updateItemStatus (id' item) listed state b (clock (2 * n + 1)) of
           Inl e \<Rightarrow> Inl (e, state, b)
         | Inr (s1, b1) \<Rightarrow>
             (case map_of (inventory s1) (id' item) of
                Some updatedItem \<Rightarrow>
                  (let u = updatedItem\<lparr>resale_price := Some (estimated_resale item)\<rparr>
                   in relist_loop clock (Suc n) rest listings'
                        (s1\<lparr>inventory := AList.update (id' item) u (inventory s1)\<rparr>)
                        (b1(id' item \<mapsto> u)))
              | None \<Rightarrow> relist_loop clock (Suc n) rest listings' s1 b1))"

definition relistItems ::
  "InventoryState \<Rightarrow> bucket \<Rightarrow> (nat \<Rightarrow> string)
     \<Rightarrow> (inventory_error \<times> InventoryState \<times> bucket)
         + (Listing list \<times> InventoryState \<times> bucket)" where
  "relistItems state b clock =
     (let purchasedItems = filter (\<lambda>item. status item = purchased) (map snd (inventory state))
      in relist_loop clock 0 purchasedItems [] state b)"

text \<open>
  The inventory as the actor builds it: every entry is stored under its own id
  (\<open>addToInventory\<close> is the only writer of new keys), and no key occurs twice.
\<close>

definition keyed_by_id :: "InventoryState \<Rightarrow> bool" where
  "keyed_by_id state =
     (distinct (map fst (inventory state))
      \<and> list_all (\<lambda>(k, v). id' v = k) (inventory state))"

text \<open>
  The statistics as the decision engine keeps them: nothing negative is invested, and the
  return on investment is 0 while nothing is invested.  The initial state has this
  property and every purchase at a price of 0 or more keeps it.
\<close>

definition stats_consistent :: "AgentStats \<Rightarrow> bool" where
  "stats_consistent st =
     (0 \<le> total_invested st \<and> (total_invested st = 0 \<longrightarrow> expected_roi st = 0))"

text \<open>Whole numbers below \<open>2 ^ 53\<close>: on them addition and subtraction do not round.\<close>

definition whole :: "number \<Rightarrow> bool" where
  "whole x = (of_int \<lfloor>x\<rfloor> = x \<and> \<bar>x\<bar> < 2 ^ 53)"

section \<open>Concrete inputs\<close>

text \<open>Listings, states and reference prices at which the theorems below are evaluated.\<close>

definition mk_item :: "string \<Rightarrow> number \<Rightarrow> number \<Rightarrow> number \<Rightarrow> EvaluatedListing" where
  "mk_item i p m pp =
     \<lparr>id' = i, title = ''Radio'', price = p, url = ''http://example.com/1'',
      marketplace = ebay, category = ''electronics'', timestamp = ''2025-10-01T10:00:00.000Z'',
      is_undervalued = True, score = 85, estimated_resale = p + pp, profit_potential = pp,
      profit_margin = m, reasoning = ''Good'',
      scores_breakdown = \<lparr>sb_historical = 85, sb_msrp = 85, sb_scarcity = 85, sb_ratio = 85\<rparr>\<rparr>"

text \<open>
  A listing with the profit figures \<open>evaluateSingleListing\<close> gives it against a
  historical average: the resale value is the average, the profit potential the average
  minus the price, the profit margin the profit potential divided by the price.
\<close>

definition valued_item :: "string \<Rightarrow> number \<Rightarrow> number \<Rightarrow> EvaluatedListing" where
  "valued_item i p average =
     (mk_item i p (fdiv (fsub average p) p) (fsub average p))\<lparr>estimated_resale := average\<rparr>"

definition noon :: "nat \<Rightarrow> string" where
  "noon n = ''2025-10-01T12:00:00.000Z''"

text \<open>
  The doubles that the literals \<open>0.08\<close> and \<open>4999.92\<close> denote.
\<close>

definition d_0_08 :: number where
  "d_0_08 = 5764607523034235 / 2 ^ 56"

definition d_4999_92 :: number where
  "d_4999_92 = 2748735088974889 / 2 ^ 39"

definition stored_state :: DecisionActorState where
  "stored_state = (fresh_state 700)\<lparr>purchasedIds := [''a'', ''b'', ''a'']\<rparr>"

definition bought_a :: DecisionActorState where
  "bought_a = (fresh_state 1000)\<lparr>purchasedIds := [''a'']\<rparr>"

definition spent_a :: DecisionActorState where
  "spent_a = (fresh_state 0)\<lparr>purchasedIds := [''a'']\<rparr>"

definition new_actor :: DecisionActor where
  "new_actor = \<lparr>actorState = createInitialState, storage = None\<rparr>"

definition two_batches ::
  "(EvaluatedListing list \<times> number option \<times> (nat \<Rightarrow> string)) list" where
  "two_batches =
     [([mk_item ''a'' 300 (1 / 2) 150, mk_item ''b'' 100 (1 / 2) 60], Some 1000, noon),
      ([mk_item ''a'' 10 2 500, mk_item ''c'' 100 (1 / 2) 60], Some 1000, noon)]"

definition budget_only :: AgentConfig where
  "budget_only =
     \<lparr>cfg_budget = Some 100, minProfitMargin = None, minProfit = None,
      maxPerMarketplace = None, cfg_category = None\<rparr>"

definition iphone_prices :: HistoricalData where
  "iphone_prices = \<lparr>avg = 650, min' = 400, max' = 1200, msrp = 999\<rparr>"

definition flat_prices :: HistoricalData where
  "flat_prices = \<lparr>avg = 500, min' = 500, max' = 500, msrp = 699\<rparr>"

definition mk_stock :: "string \<Rightarrow> number \<Rightarrow> item_status \<Rightarrow> InventoryItem" where
  "mk_stock i r st =
     \<lparr>id' = i, title = ''Radio'', price = 100, url = ''http://example.com/1'',
      marketplace = ebay, category = ''electronics'', timestamp = ''2025-10-01T10:00:00.000Z'',
      is_undervalued = True, score = 85, estimated_resale = r, profit_potential = r - 100,
      profit_margin = (r - 100) / 100, reasoning = ''Good'',
      scores_breakdown = \<lparr>sb_historical = 85, sb_msrp = 85, sb_scarcity = 85, sb_ratio = 85\<rparr>,
      purchase_date = ''2025-10-01T11:00:00.000Z'', status = st, resale_price = None,
      listed_date = None\<rparr>"

definition shelf :: InventoryState where
  "shelf =
     \<lparr>inventory = [(''a'', mk_stock ''a'' 250 purchased), (''b'', mk_stock ''b'' 300 listed),
                   (''c'', mk_stock ''c'' 400 sold), (''d'', mk_stock ''d'' 180 purchased)],
      listedIds = [''b'']\<rparr>"

definition tabbed_title :: string where
  "tabbed_title = ''Old'' @ [CHR 0x09] @ ''Radio''"

section \<open>Facts about rounding\<close>

lemma floor_rat_eval:
  "\<lfloor>numeral a / numeral b :: rat\<rfloor> = numeral a div numeral b"
  "\<lfloor>1 / numeral b :: rat\<rfloor> = 1 div numeral b"
  "\<lfloor>- (numeral a / numeral b) :: rat\<rfloor> = - numeral a div numeral b"
  by (metis floor_divide_of_int_eq of_int_numeral,
      metis floor_divide_of_int_eq of_int_numeral of_int_1,
      metis divide_minus_left floor_divide_of_int_eq of_int_neg_numeral of_int_numeral)

lemma bitlen_eval:
  "bitlen 1 = 1" "bitlen (numeral k) = bitlen (numeral k div 2) + 1"
  "bitlen (- numeral k) = 0"
  by (subst compute_bitlen, simp)+

lemmas fl_eval = fl_def fadd_def fsub_def fmul_def fdiv_def binexp_def bitlen_eval
  floor_rat_eval rne_def Let_def

lemma rne_of_int [simp]: "rne (of_int n) = n"
  by (simp add: rne_def)

lemma rne_bounds: "\<lfloor>y\<rfloor> \<le> rne y" "rne y \<le> \<lfloor>y\<rfloor> + 1"
  by (simp_all add: rne_def Let_def)

lemma rne_mono: "a \<le> b \<Longrightarrow> rne a \<le> rne b"
proof (cases "\<lfloor>a\<rfloor> = \<lfloor>b\<rfloor>")
  case True
  assume "a \<le> b"
  then have "a - of_int \<lfloor>b\<rfloor> \<le> b - of_int \<lfloor>b\<rfloor>" by simp
  with True show ?thesis by (auto simp: rne_def Let_def)
next
  case False
  assume "a \<le> b"
  with False have "\<lfloor>a\<rfloor> < \<lfloor>b\<rfloor>" using floor_mono [of a b] by linarith
  with rne_bounds(2) [of a] rne_bounds(1) [of b] show ?thesis by linarith
qed

lemma powi_nonneg_eq: "0 \<le> e \<Longrightarrow> (2::rat) powi e = of_int (2 ^ nat e)"
  by (simp add: power_int_def)

lemma powi_neg_eq: "0 \<le> k \<Longrightarrow> (2::rat) powi (- k) = 1 / of_int (2 ^ nat k)"
  by (simp add: power_int_minus power_int_def field_simps)

lemma bitlen_pos: "0 < n \<Longrightarrow> 1 \<le> bitlen n"
  using bitlen_eq_zero_iff [of n] bitlen_nonneg [of n] by linarith

lemma binexp_bounds:
  assumes "0 < a"
  shows "2 powi (binexp a) \<le> a" and "a < 2 powi (binexp a + 1)"
proof -
  have "2 powi (binexp a) \<le> a \<and> a < 2 powi (binexp a + 1)"
  proof (cases "1 \<le> a")
    case True
    let ?n = "\<lfloor>a\<rfloor>"
    from True have n: "0 < ?n" by simp
    from bitlen_bounds [OF n] have lo: "2 ^ nat (bitlen ?n - 1) \<le> ?n" and hi: "?n < 2 ^ nat (bitlen ?n)"
      by simp_all
    from bitlen_pos [OF n] have k: "0 \<le> bitlen ?n - 1" "0 \<le> bitlen ?n" by simp_all
    have e: "binexp a = bitlen ?n - 1" using True by (simp add: binexp_def)
    have "(2::rat) powi (bitlen ?n - 1) = of_int (2 ^ nat (bitlen ?n - 1))"
      using k by (intro powi_nonneg_eq)
    also have "\<dots> \<le> of_int ?n" using lo by (simp only: of_int_le_iff)
    also have "\<dots> \<le> a" by simp
    finally have a: "2 powi (binexp a) \<le> a" by (simp add: e)
    have "a < of_int (?n + 1)" by linarith
    also have "\<dots> \<le> of_int (2 ^ nat (bitlen ?n))"
    proof -
      from hi have "?n + 1 \<le> 2 ^ nat (bitlen ?n)" by simp
      then show ?thesis by (simp only: of_int_le_iff)
    qed
    also have "\<dots> = (2::rat) powi (bitlen ?n)" using k by (simp only: powi_nonneg_eq)
    finally have "a < 2 powi (binexp a + 1)" by (simp add: e)
    with a show ?thesis ..
  next
    case False
    let ?y = "1 / a"
    let ?f = "\<lfloor>?y\<rfloor>"
    let ?n = "if of_int ?f = ?y then ?f - 1 else ?f"
    from False assms have y: "1 < ?y" by (simp add: field_simps)
    then have f: "1 \<le> ?f" by simp
    have lt: "of_int ?n < ?y"
      using of_int_floor_le [of ?y] by (auto simp: less_le)
    have le: "?y \<le> of_int (?n + 1)"
      using floor_correct [of ?y] by (auto simp: less_imp_le)
    have n: "0 < ?n"
    proof (cases "of_int ?f = ?y")
      case True
      with y have "1 < ?f" by (metis of_int_1_less_iff)
      with True show ?thesis by simp
    next
      case False
      with f show ?thesis by simp
    qed
    from bitlen_bounds [OF n] have lo: "2 ^ nat (bitlen ?n - 1) \<le> ?n" and hi: "?n < 2 ^ nat (bitlen ?n)"
      by simp_all
    from bitlen_pos [OF n] have k: "0 \<le> bitlen ?n - 1" "0 \<le> bitlen ?n" by simp_all
    have e: "binexp a = - bitlen ?n" using False by (simp add: binexp_def Let_def)
    have "?y \<le> of_int (2 ^ nat (bitlen ?n))"
    proof -
      from hi have "?n + 1 \<le> 2 ^ nat (bitlen ?n)" by simp
      then have "(of_int (?n + 1) :: rat) \<le> of_int (2 ^ nat (bitlen ?n))"
        by (simp only: of_int_le_iff)
      with le show ?thesis by linarith
    qed
    then have "1 / of_int (2 ^ nat (bitlen ?n)) \<le> a"
      using assms by (simp add: field_simps)
    then have a: "2 powi (binexp a) \<le> a"
      using k by (simp only: e powi_neg_eq)
    have "(of_int (2 ^ nat (bitlen ?n - 1)) :: rat) < ?y"
    proof -
      from lo have "(of_int (2 ^ nat (bitlen ?n - 1)) :: rat) \<le> of_int ?n"
        by (simp only: of_int_le_iff)
      with lt show ?thesis by linarith
    qed
    then have "a < 1 / of_int (2 ^ nat (bitlen ?n - 1))"
      using assms by (simp add: field_simps)
    also have "\<dots> = (2::rat) powi (- (bitlen ?n - 1))"
      using k by (simp only: powi_neg_eq)
    finally have "a < 2 powi (binexp a + 1)" by (simp add: e)
    with a show ?thesis ..
  qed
  then show "2 powi (binexp a) \<le> a" and "a < 2 powi (binexp a + 1)" by simp_all
qed

lemma binexp_mono:
  assumes "0 < a" and "a \<le> b"
  shows "binexp a \<le> binexp b"
proof (rule ccontr)
  assume "\<not> binexp a \<le> binexp b"
  then have "binexp b + 1 \<le> binexp a" by simp
  then have "(2::rat) powi (binexp b + 1) \<le> 2 powi (binexp a)"
    by (intro power_int_increasing) simp_all
  also have "\<dots> \<le> a" using binexp_bounds(1) [OF assms(1)] .
  also have "\<dots> \<le> b" by fact
  also have "\<dots> < 2 powi (binexp b + 1)" using binexp_bounds(2) [of b] assms by simp
  finally show False by simp
qed

lemma fl_pos_eq:
  "0 < x \<Longrightarrow> fl x = of_int (rne (x / 2 powi (binexp x - 52))) * 2 powi (binexp x - 52)"
  by (simp add: fl_def Let_def)

lemma fl_pos_bounds:
  assumes "0 < x"
  shows "2 powi (binexp x) \<le> fl x" and "fl x \<le> 2 powi (binexp x + 1)"
proof -
  let ?e = "binexp x"
  let ?u = "(2::rat) powi (?e - 52)"
  have u: "0 < ?u" by simp
  have lo_eq: "(2::rat) powi ?e = of_int (2 ^ 52) * ?u"
    by (simp add: power_int_diff)
  have hi_eq: "(2::rat) powi (?e + 1) = of_int (2 ^ 53) * ?u"
    by (simp add: power_int_diff power_int_add)
  from binexp_bounds [OF assms] have "of_int (2 ^ 52) * ?u \<le> x" "x \<le> of_int (2 ^ 53) * ?u"
    by (simp_all only: lo_eq [symmetric] hi_eq [symmetric] less_imp_le)
  with u have "of_int (2 ^ 52) \<le> x / ?u" "x / ?u \<le> of_int (2 ^ 53)"
    by (simp_all add: pos_le_divide_eq pos_divide_le_eq)
  then have "rne (of_int (2 ^ 52)) \<le> rne (x / ?u)" "rne (x / ?u) \<le> rne (of_int (2 ^ 53))"
    by (auto intro: rne_mono)
  then have "(of_int (2 ^ 52) :: rat) \<le> of_int (rne (x / ?u))"
    "(of_int (rne (x / ?u)) :: rat) \<le> of_int (2 ^ 53)"
    by (simp_all only: rne_of_int of_int_le_iff)
  with u have "of_int (2 ^ 52) * ?u \<le> of_int (rne (x / ?u)) * ?u"
    "of_int (rne (x / ?u)) * ?u \<le> of_int (2 ^ 53) * ?u"
    by (simp_all only: mult_le_cancel_right_pos)
  then show "2 powi (binexp x) \<le> fl x" and "fl x \<le> 2 powi (binexp x + 1)"
    by (simp_all only: fl_pos_eq [OF assms] lo_eq hi_eq)
qed

lemma fl_zero [simp]: "fl 0 = 0"
  by (simp add: fl_def)

lemma fl_minus: "fl (- x) = - fl x"
  by (simp add: fl_def Let_def sgn_minus)

lemma fl_pos: "0 < x \<Longrightarrow> 0 < fl x"
proof -
  assume "0 < x"
  moreover have "0 < (2::rat) powi (binexp x)" by simp
  ultimately show ?thesis using fl_pos_bounds(1) [of x] by linarith
qed

lemma fl_nonneg: "0 \<le> x \<Longrightarrow> 0 \<le> fl x"
  using fl_pos [of x] by (cases "x = 0") (simp_all add: less_le)

lemma fl_eq_0_iff: "fl x = 0 \<longleftrightarrow> x = 0"
proof (cases "x = 0")
  case True
  then show ?thesis by simp
next
  case False
  then consider "0 < x" | "0 < - x" by linarith
  then show ?thesis
  proof cases
    case 1
    with fl_pos [of x] show ?thesis by simp
  next
    case 2
    with fl_pos [of "- x"] show ?thesis by (simp add: fl_minus)
  qed
qed

lemma fl_mono_pos:
  assumes "0 < x" and "x \<le> y"
  shows "fl x \<le> fl y"
proof (cases "binexp x = binexp y")
  case True
  let ?u = "(2::rat) powi (binexp y - 52)"
  from assms have y: "0 < y" by simp
  have u: "0 < ?u" by simp
  with assms(2) have "x / ?u \<le> y / ?u" by (simp add: divide_right_mono)
  then have "rne (x / ?u) \<le> rne (y / ?u)" by (rule rne_mono)
  then have "(of_int (rne (x / ?u)) :: rat) \<le> of_int (rne (y / ?u))" by simp
  with u have "of_int (rne (x / ?u)) * ?u \<le> of_int (rne (y / ?u)) * ?u"
    by (simp only: mult_le_cancel_right_pos)
  then show ?thesis
    by (simp only: fl_pos_eq [OF assms(1)] fl_pos_eq [OF y] True)
next
  case False
  from assms have y: "0 < y" by simp
  from False binexp_mono [OF assms] have "binexp x + 1 \<le> binexp y" by simp
  then have "(2::rat) powi (binexp x + 1) \<le> 2 powi (binexp y)"
    by (intro power_int_increasing) simp_all
  with fl_pos_bounds(2) [OF assms(1)] fl_pos_bounds(1) [OF y] show ?thesis by linarith
qed

lemma fl_mono: "x \<le> y \<Longrightarrow> fl x \<le> fl y"
proof -
  assume le: "x \<le> y"
  consider "0 < x" | "x \<le> 0" "0 \<le> y" | "y < 0" by linarith
  then show ?thesis
  proof cases
    case 1
    then show ?thesis using le by (rule fl_mono_pos)
  next
    case 2
    then have "0 \<le> - x" by simp
    from fl_nonneg [OF this] fl_nonneg [OF 2(2)] show ?thesis by (simp add: fl_minus)
  next
    case 3
    with le have "0 < - y" "- y \<le> - x" by simp_all
    from fl_mono_pos [OF this] show ?thesis by (simp add: fl_minus)
  qed
qed

lemma fl_eval_checks:
  "fl (9 / 10) = 8106479329266893 / 2 ^ 53" "fl 200 = 200" "fl (10 ^ 16 - 1) = 10 ^ 16"
  "fl (- 3 / 4) = - 3 / 4" "fl (1 / 5) = 3602879701896397 / 2 ^ 54"
  "fsub 5000 d_0_08 = d_4999_92" "fl d_0_08 = d_0_08" "fl d_4999_92 = d_4999_92"
  by (simp_all add: fl_eval d_0_08_def d_4999_92_def)

lemma fl_whole_pos:
  assumes "0 < x" and "of_int \<lfloor>x\<rfloor> = x" and "x < 2 ^ 53"
  shows "fl x = x"
proof -
  let ?e = "binexp x"
  define n where "n = \<lfloor>x\<rfloor>"
  have x: "x = of_int n" using assms(2) unfolding n_def by (rule sym)
  have e: "?e < 53"
  proof (rule ccontr)
    assume "\<not> ?e < 53"
    then have "(2::rat) powi 53 \<le> 2 powi ?e" by (intro power_int_increasing) simp_all
    also have "\<dots> \<le> x" using binexp_bounds(1) [OF assms(1)] .
    finally show False using assms(3) by simp
  qed
  define k where "k = 52 - ?e"
  from e have k: "0 \<le> k" by (simp add: k_def)
  have u: "(2::rat) powi (?e - 52) = 1 / of_int (2 ^ nat k)"
    using powi_neg_eq [OF k] by (simp add: k_def)
  have "x / (2 powi (?e - 52)) = of_int (n * 2 ^ nat k)"
    unfolding u by (simp add: x)
  then have "rne (x / (2 powi (?e - 52))) = n * 2 ^ nat k"
    by (simp only: rne_of_int)
  then have "fl x = of_int (n * 2 ^ nat k) * (1 / of_int (2 ^ nat k))"
    by (simp only: fl_pos_eq [OF assms(1)] u)
  then show ?thesis by (simp add: x)
qed

lemma fl_whole: "whole x \<Longrightarrow> fl x = x"
proof -
  assume w: "whole x"
  consider "x = 0" | "0 < x" | "0 < - x" by linarith
  then show ?thesis
  proof cases
    case 1
    then show ?thesis by simp
  next
    case 2
    with w show ?thesis by (intro fl_whole_pos) (simp_all add: whole_def)
  next
    case 3
    from w have "of_int \<lfloor>- x\<rfloor> = - x"
      by (metis whole_def floor_of_int of_int_minus)
    with 3 w have "fl (- x) = - x" by (intro fl_whole_pos) (simp_all add: whole_def)
    then show ?thesis by (simp add: fl_minus)
  qed
qed

lemma whole_diff:
  assumes "whole b" and "whole p" and "0 \<le> p" and "p \<le> b"
  shows "whole (b - p)" and "fsub b p = b - p"
proof -
  from assms obtain m q where "b = of_int m" "p = of_int q"
    unfolding whole_def by metis
  then have "b - p = of_int (m - q)" by simp
  then have "of_int \<lfloor>b - p\<rfloor> = b - p" by (metis floor_of_int)
  with assms show "whole (b - p)" by (simp add: whole_def)
  then show "fsub b p = b - p" by (simp add: fsub_def fl_whole)
qed

text \<open>Rewrite rules for evaluating whole-number arithmetic at concrete inputs.\<close>

lemma whole_numeral:
  "whole (numeral k) \<longleftrightarrow> (numeral k :: rat) < 2 ^ 53" "whole 0" "whole 1"
proof -
  have "of_int \<lfloor>numeral k :: rat\<rfloor> = (numeral k :: rat)" by (simp only: floor_numeral of_int_numeral)
  then show "whole (numeral k) \<longleftrightarrow> (numeral k :: rat) < 2 ^ 53"
    unfolding whole_def by simp
  have "of_int \<lfloor>0 :: rat\<rfloor> = (0 :: rat)" "of_int \<lfloor>1 :: rat\<rfloor> = (1 :: rat)"
    by (simp_all only: floor_zero floor_one of_int_0 of_int_1)
  then show "whole 0" "whole 1" unfolding whole_def by simp_all
qed

lemma whole_arith:
  "whole (a + b) \<Longrightarrow> fadd a b = a + b" "whole (a - b) \<Longrightarrow> fsub a b = a - b"
  "whole (a * b) \<Longrightarrow> fmul a b = a * b" "whole (a / b) \<Longrightarrow> fdiv a b = a / b"
  by (simp_all add: fadd_def fsub_def fmul_def fdiv_def fl_whole)

lemmas whole_eval = whole_arith whole_numeral

lemma whole_eval_checks:
  "fsub 1000 300 = 700" "fadd 0 1 = 1" "fmul (1 / 2) 100 = 50" "fdiv 600 3 = 200"
  "fadd 200 100 = 300"
  by (simp_all add: whole_eval)

section \<open>Facts about the decision engine\<close>

text \<open>
  The value of the literal \<open>0.20\<close>.  No double lies between one fifth and it, so a
  comparison of a double with \<open>0.20\<close> is the comparison with \<open>1 / 5\<close>.
\<close>

lemma min_margin_value: "MIN_PROFIT_MARGIN = 3602879701896397 / 2 ^ 54"
  by (simp add: MIN_PROFIT_MARGIN_def fl_eval)

lemma double_less_min_margin:
  assumes "fl x = x"
  shows "x < MIN_PROFIT_MARGIN \<longleftrightarrow> x < 1 / 5"
proof
  assume "x < MIN_PROFIT_MARGIN"
  show "x < 1 / 5"
  proof (rule ccontr)
    assume "\<not> x < 1 / 5"
    then have "1 / 5 \<le> x" by simp
    from fl_mono [OF this] assms \<open>x < MIN_PROFIT_MARGIN\<close> show False
      by (simp add: MIN_PROFIT_MARGIN_def)
  qed
next
  assume "x < 1 / 5"
  then show "x < MIN_PROFIT_MARGIN" by (simp add: min_margin_value)
qed

lemmas eval_defs = mk_item_def noon_def new_actor_def fresh_state_def
  bought_a_def spent_a_def whole_eval
  createInitialState_def makeDecisions_def evaluateOpportunity_def hasPurchased_def
  validateBudget_def skip_decision_def buy_decision_def apply_decision_def addPurchasedId_def
  updateStats_def min_margin_value MIN_PROFIT_def buys_def Let_def
  DecisionActor_makeDecisions_def processPurchases_def saveState_def updateConfig_def
  List.map_filter_def reason_purchased_def reason_budget_def reason_margin_def
  reason_profit_def reason_buy_def

lemma validateBudget_iff: "validateBudget p b \<longleftrightarrow> 0 < b \<and> p \<le> b"
  by (auto simp: validateBudget_def)

lemma evaluateOpportunity_fields [simp]:
  "item_id (evaluateOpportunity item s ts) = id' item"
  "d_price (evaluateOpportunity item s ts) = price item"
  "d_profit_potential (evaluateOpportunity item s ts) = profit_potential item"
  by (simp_all add: evaluateOpportunity_def skip_decision_def buy_decision_def)

lemma fmul_min_margin: "fmul MIN_PROFIT_MARGIN 100 = 20"
  by (simp add: min_margin_value fl_eval)

lemma evaluateOpportunity_BUY_iff:
  "action (evaluateOpportunity item s ts) = BUY \<longleftrightarrow>
     id' item \<notin> set (purchasedIds s) \<and> 0 < budget s \<and> price item \<le> budget s
     \<and> MIN_PROFIT_MARGIN \<le> profit_margin item \<and> 50 \<le> profit_potential item"
  by (auto simp: evaluateOpportunity_def skip_decision_def buy_decision_def hasPurchased_def
      validateBudget_iff MIN_PROFIT_def)

lemma apply_decision_SKIP:
  "action d \<noteq> BUY \<Longrightarrow> apply_decision item d s = s"
  by (simp add: apply_decision_def)

lemma apply_decision_BUY:
  assumes "action (evaluateOpportunity item s ts) = BUY"
  shows "apply_decision item (evaluateOpportunity item s ts) s =
     \<lparr>budget = fsub (budget s) (price item),
      purchasedIds = purchasedIds s @ [id' item],
      stats =
        \<lparr>listings_scanned = listings_scanned (stats s),
         items_purchased = fadd (items_purchased (stats s)) 1,
         items_listed = items_listed (stats s),
         total_invested = fadd (total_invested (stats s)) (price item),
         potential_revenue =
           fadd (potential_revenue (stats s)) (fadd (price item) (profit_potential item)),
         expected_profit = fadd (expected_profit (stats s)) (profit_potential item),
         expected_roi =
           (if 0 < fadd (total_invested (stats s)) (price item)
            then fmul (fdiv (fadd (expected_profit (stats s)) (profit_potential item))
                         (fadd (total_invested (stats s)) (price item))) 100
            else expected_roi (stats s))\<rparr>\<rparr>"
proof -
  from assms have "id' item \<notin> set (purchasedIds s)"
    by (simp add: evaluateOpportunity_BUY_iff)
  with assms show ?thesis
    by (simp add: apply_decision_def addPurchasedId_def updateStats_def Let_def)
qed

lemma loop_shift:
  "makeDecisions_loop clock (Suc n) xs s = makeDecisions_loop (\<lambda>k. clock (Suc k)) n xs s"
  by (induction xs arbitrary: n s) (simp_all add: Let_def)

lemma apply_decision_budget:
  "budget (apply_decision item (evaluateOpportunity item s ts) s) =
     (if action (evaluateOpportunity item s ts) = BUY then fsub (budget s) (price item)
      else budget s)"
  by (simp add: apply_decision_def addPurchasedId_def updateStats_def Let_def)

lemma apply_decision_purchasedIds:
  "purchasedIds (apply_decision item (evaluateOpportunity item s ts) s) =
     (if action (evaluateOpportunity item s ts) = BUY then purchasedIds s @ [id' item]
      else purchasedIds s)"
  by (simp add: apply_decision_def addPurchasedId_def updateStats_def Let_def
      evaluateOpportunity_BUY_iff)

lemma loop_budget:
  "makeDecisions_loop clock n xs s = (ds, fin) \<Longrightarrow> 0 \<le> budget s \<Longrightarrow> 0 \<le> budget fin"
proof (induction xs arbitrary: n s ds fin)
  case Nil
  then show ?case by simp
next
  case (Cons item rest)
  let ?d = "evaluateOpportunity item s (clock n)"
  let ?s = "apply_decision item ?d s"
  obtain ds' fin' where r: "makeDecisions_loop clock (Suc n) rest ?s = (ds', fin')"
    by (cases "makeDecisions_loop clock (Suc n) rest ?s")
  with Cons.prems have eq: "ds = ?d # ds'" "fin = fin'"
    by (simp_all add: Let_def)
  have "0 \<le> budget ?s"
  proof (cases "action ?d = BUY")
    case True
    then have "0 \<le> budget s - price item" by (simp add: evaluateOpportunity_BUY_iff)
    then have "0 \<le> fsub (budget s) (price item)" unfolding fsub_def by (rule fl_nonneg)
    with True show ?thesis by (simp add: apply_decision_budget)
  next
    case False
    with Cons.prems(2) show ?thesis by (simp add: apply_decision_budget)
  qed
  from Cons.IH [OF r this] eq show ?case by simp
qed

text \<open>With whole-number amounts no subtraction rounds, and the budget is accounted for.\<close>

lemma loop_budget_whole:
  "makeDecisions_loop clock n xs s = (ds, fin) \<Longrightarrow> whole (budget s) \<Longrightarrow>
     \<forall>item\<in>set xs. whole (price item) \<and> 0 \<le> price item \<Longrightarrow>
     whole (budget fin) \<and> budget fin = budget s - sum_list (map d_price (buys ds))"
proof (induction xs arbitrary: n s ds fin)
  case Nil
  then show ?case by (simp add: buys_def)
next
  case (Cons item rest)
  let ?d = "evaluateOpportunity item s (clock n)"
  let ?s = "apply_decision item ?d s"
  obtain ds' fin' where r: "makeDecisions_loop clock (Suc n) rest ?s = (ds', fin')"
    by (cases "makeDecisions_loop clock (Suc n) rest ?s")
  with Cons.prems have eq: "ds = ?d # ds'" "fin = fin'"
    by (simp_all add: Let_def)
  from Cons.prems(3) have item: "whole (price item)" "0 \<le> price item"
    and rest: "\<forall>item\<in>set rest. whole (price item) \<and> 0 \<le> price item"
    by simp_all
  show ?case
  proof (cases "action ?d = BUY")
    case True
    then have "price item \<le> budget s" by (simp add: evaluateOpportunity_BUY_iff)
    from whole_diff [OF Cons.prems(2) item this] True
    have w: "whole (budget ?s)" and b: "budget ?s = budget s - price item"
      by (simp_all add: apply_decision_budget)
    from Cons.IH [OF r w rest]
    have ih: "whole (budget fin')"
      "budget fin' = budget ?s - sum_list (map d_price (buys ds'))" by blast+
    from True have "buys ds = ?d # buys ds'" by (simp add: eq buys_def)
    then have "sum_list (map d_price (buys ds)) = price item + sum_list (map d_price (buys ds'))"
      by simp
    with ih b eq show ?thesis by simp
  next
    case False
    then have b: "budget ?s = budget s" by (simp add: apply_decision_budget)
    with Cons.prems(2) have w: "whole (budget ?s)" by simp
    from Cons.IH [OF r w rest]
    have ih: "whole (budget fin')"
      "budget fin' = budget ?s - sum_list (map d_price (buys ds'))" by blast+
    from False have "buys ds = buys ds'" by (simp add: eq buys_def)
    with ih b eq show ?thesis by simp
  qed
qed

lemma loop_prices:
  "makeDecisions_loop clock n xs s = (ds, fin) \<Longrightarrow> map d_price ds = map price xs"
proof (induction xs arbitrary: n s ds fin)
  case Nil
  then show ?case by simp
next
  case (Cons item rest)
  then show ?case
    by (auto simp: Let_def split: prod.splits)
qed

lemma loop_ids:
  "makeDecisions_loop clock n xs s = (ds, fin) \<Longrightarrow>
     distinct (map item_id (buys ds))
     \<and> set (map item_id (buys ds)) \<inter> set (purchasedIds s) = {}
     \<and> purchasedIds fin = purchasedIds s @ map item_id (buys ds)"
proof (induction xs arbitrary: n s ds fin)
  case Nil
  then show ?case by (simp add: buys_def)
next
  case (Cons item rest)
  let ?d = "evaluateOpportunity item s (clock n)"
  let ?s = "apply_decision item ?d s"
  obtain ds' fin' where r: "makeDecisions_loop clock (Suc n) rest ?s = (ds', fin')"
    by (cases "makeDecisions_loop clock (Suc n) rest ?s")
  with Cons.prems have eq: "ds = ?d # ds'" "fin = fin'"
    by (simp_all add: Let_def)
  note ih = Cons.IH [OF r]
  show ?case
  proof (cases "action ?d = BUY")
    case True
    then have "id' item \<notin> set (purchasedIds s)" by (simp add: evaluateOpportunity_BUY_iff)
    with True ih eq show ?thesis
      by (auto simp: apply_decision_purchasedIds buys_def)
  next
    case False
    with ih eq show ?thesis
      by (auto simp: apply_decision_purchasedIds buys_def)
  qed
qed

lemma loop_no_buy:
  "makeDecisions_loop clock n xs s = (ds, fin) \<Longrightarrow> buys ds = [] \<Longrightarrow> fin = s"
proof (induction xs arbitrary: n s ds fin)
  case Nil
  then show ?case by simp
next
  case (Cons item rest)
  let ?d = "evaluateOpportunity item s (clock n)"
  let ?s = "apply_decision item ?d s"
  obtain ds' fin' where r: "makeDecisions_loop clock (Suc n) rest ?s = (ds', fin')"
    by (cases "makeDecisions_loop clock (Suc n) rest ?s")
  with Cons.prems have eq: "ds = ?d # ds'" "fin = fin'"
    by (simp_all add: Let_def)
  from Cons.prems(2) eq have nb: "action ?d \<noteq> BUY" "buys ds' = []"
    by (auto simp: buys_def split: if_splits)
  then have "?s = s" by (simp add: apply_decision_SKIP)
  with Cons.IH [OF r nb(2)] eq show ?case by simp
qed

lemma processPurchases_no_buy: "buys ds = [] \<Longrightarrow> processPurchases ds evaluated = []"
  by (simp add: processPurchases_def buys_def List.map_filter_def)

lemma actor_makeDecisions_loop:
  assumes "DecisionActor_makeDecisions evaluated b clock a = (ds, handed, a')"
  shows "\<exists>fin. makeDecisions_loop clock 0 evaluated
              (case b of Some v \<Rightarrow> (actorState a)\<lparr>budget := v\<rparr> | None \<Rightarrow> actorState a)
            = (ds, fin)
          \<and> actorState a' = fin\<lparr>stats := (stats fin)\<lparr>listings_scanned :=
                 fadd (listings_scanned (stats fin)) (of_nat (length evaluated))\<rparr>\<rparr>
          \<and> storage a' = Some (actorState a')
          \<and> handed = processPurchases ds evaluated"
  using assms
  by (auto simp: DecisionActor_makeDecisions_def makeDecisions_def saveState_def Let_def
      split: prod.splits)

lemma actor_makeDecisions_ids:
  assumes "DecisionActor_makeDecisions evaluated b clock a = (ds, handed, a')"
  shows "distinct (map item_id (buys ds))
     \<and> set (map item_id (buys ds)) \<inter> set (purchasedIds (actorState a)) = {}
     \<and> purchasedIds (actorState a') = purchasedIds (actorState a) @ map item_id (buys ds)"
proof -
  from actor_makeDecisions_loop [OF assms] obtain fin where
    run: "makeDecisions_loop clock 0 evaluated
              (case b of Some v \<Rightarrow> (actorState a)\<lparr>budget := v\<rparr> | None \<Rightarrow> actorState a)
            = (ds, fin)"
    and st: "actorState a' = fin\<lparr>stats := (stats fin)\<lparr>listings_scanned :=
                 fadd (listings_scanned (stats fin)) (of_nat (length evaluated))\<rparr>\<rparr>"
    by blast
  have p: "purchasedIds (case b of Some v \<Rightarrow> (actorState a)\<lparr>budget := v\<rparr> | None \<Rightarrow> actorState a)
            = purchasedIds (actorState a)"
    by (simp split: option.splits)
  from loop_ids [OF run] st show ?thesis
    by (simp add: p)
qed

lemma run_batches_ids:
  "run_batches a batches = (ds, a') \<Longrightarrow>
     distinct (map item_id (buys ds))
     \<and> set (map item_id (buys ds)) \<inter> set (purchasedIds (actorState a)) = {}
     \<and> purchasedIds (actorState a') = purchasedIds (actorState a) @ map item_id (buys ds)"
proof (induction batches arbitrary: a ds a')
  case Nil
  then show ?case by (simp add: buys_def)
next
  case (Cons batch rest)
  obtain evaluated b clock where batch: "batch = (evaluated, b, clock)"
    by (cases batch)
  obtain ds1 handed a1 where first: "DecisionActor_makeDecisions evaluated b clock a = (ds1, handed, a1)"
    by (cases "DecisionActor_makeDecisions evaluated b clock a")
  obtain ds2 a2 where more: "run_batches a1 rest = (ds2, a2)"
    by (cases "run_batches a1 rest")
  from Cons.prems batch first more have eq: "ds = ds1 @ ds2" "a' = a2"
    by simp_all
  from actor_makeDecisions_ids [OF first] Cons.IH [OF more] eq
  show ?case
    by (auto simp: buys_def)
qed

text \<open>The statistics stay consistent.\<close>

lemma stats_consistent_initial:
  "stats_consistent (stats createInitialState)" "stats_consistent (stats (fresh_state b))"
  by (simp_all add: stats_consistent_def createInitialState_def fresh_state_def)

lemma fadd_nonneg: "0 \<le> a \<Longrightarrow> 0 \<le> b \<Longrightarrow> 0 \<le> fadd a b"
  unfolding fadd_def by (intro fl_nonneg) simp

lemma fadd_eq_0_iff: "0 \<le> a \<Longrightarrow> 0 \<le> b \<Longrightarrow> fadd a b = 0 \<longleftrightarrow> a = 0 \<and> b = 0"
  unfolding fadd_def fl_eq_0_iff by (simp add: add_nonneg_eq_0_iff)

lemma stats_consistent_apply_decision:
  assumes "stats_consistent (stats s)" and "0 \<le> price item"
  shows "stats_consistent (stats (apply_decision item (evaluateOpportunity item s ts) s))"
proof (cases "action (evaluateOpportunity item s ts) = BUY")
  case True
  from assms have ti: "0 \<le> total_invested (stats s)"
    and roi: "total_invested (stats s) = 0 \<longrightarrow> expected_roi (stats s) = 0"
    by (simp_all add: stats_consistent_def)
  from fadd_nonneg [OF ti assms(2)] fadd_eq_0_iff [OF ti assms(2)] roi
  show ?thesis
    by (auto simp: apply_decision_BUY [OF True] stats_consistent_def less_le)
next
  case False
  with assms(1) show ?thesis by (simp add: apply_decision_SKIP)
qed

lemma stats_consistent_loop:
  "makeDecisions_loop clock n xs s = (ds, fin) \<Longrightarrow> stats_consistent (stats s) \<Longrightarrow>
     \<forall>item\<in>set xs. 0 \<le> price item \<Longrightarrow> stats_consistent (stats fin)"
proof (induction xs arbitrary: n s ds fin)
  case Nil
  then show ?case by simp
next
  case (Cons item rest)
  let ?d = "evaluateOpportunity item s (clock n)"
  let ?s = "apply_decision item ?d s"
  obtain ds' fin' where r: "makeDecisions_loop clock (Suc n) rest ?s = (ds', fin')"
    by (cases "makeDecisions_loop clock (Suc n) rest ?s")
  with Cons.prems have eq: "fin = fin'" by (simp add: Let_def)
  from Cons.prems have "stats_consistent (stats ?s)"
    by (intro stats_consistent_apply_decision) simp_all
  from Cons.IH [OF r this] Cons.prems(3) eq show ?case by simp
qed

lemma action_SKIP_iff: "action d = SKIP \<longleftrightarrow> action d \<noteq> BUY"
  by (cases "action d") simp_all

lemmas run_eval = makeDecisions_def DecisionActor_makeDecisions_def saveState_def Let_def
  new_actor_def createInitialState_def two_batches_def mk_item_def buys_def
  evaluateOpportunity_BUY_iff min_margin_value apply_decision_budget apply_decision_purchasedIds
  action_SKIP_iff whole_eval

lemma valued_item_fields:
  "id' (valued_item i p average) = i"
  "price (valued_item i p average) = p"
  "profit_potential (valued_item i p average) = fsub average p"
  "profit_margin (valued_item i p average) = fdiv (fsub average p) p"
  by (simp_all add: valued_item_def mk_item_def)

lemma valued_item_good:
  assumes "0 < p" and "fl c = c" and "c \<le> average - p" and "50 \<le> c" and "p \<le> 5 * c"
  shows "50 \<le> profit_potential (valued_item i p average)"
    and "MIN_PROFIT_MARGIN \<le> profit_margin (valued_item i p average)"
proof -
  from fl_mono [OF assms(3)] assms(2) have c: "c \<le> fsub average p" by (simp add: fsub_def)
  with assms(4) show "50 \<le> profit_potential (valued_item i p average)"
    by (simp add: valued_item_fields)
  from assms(1,5) have "1 / 5 \<le> c / p" by (simp add: field_simps)
  also from c assms(1) have "c / p \<le> fsub average p / p" by (simp add: divide_right_mono)
  finally have "fl (1 / 5) \<le> fl (fsub average p / p)" by (rule fl_mono)
  then show "MIN_PROFIT_MARGIN \<le> profit_margin (valued_item i p average)"
    by (simp add: valued_item_fields MIN_PROFIT_MARGIN_def fdiv_def)
qed

lemma set_of_array_aux:
  "distinct acc \<Longrightarrow>
     distinct (fold (\<lambda>i acc. if i \<in> set acc then acc else acc @ [i]) xs acc)
     \<and> set (fold (\<lambda>i acc. if i \<in> set acc then acc else acc @ [i]) xs acc) = set acc \<union> set xs"
  by (induction xs arbitrary: acc) auto

lemma set_of_array_set:
  "distinct (set_of_array xs)" "set (set_of_array xs) = set xs"
  using set_of_array_aux [of "[]" xs] by (simp_all add: set_of_array_def)

section \<open>Claims about the decision engine\<close>

text \<open>
  The checks of \<open>evaluateOpportunity\<close> for every listing and state, with the budget check
  as \<open>validateBudget\<close> makes it.
\<close>

lemma evaluateOpportunity_cases:
  "evaluateOpportunity item state ts =
     (if id' item \<in> set (purchasedIds state) then
        \<lparr>action = SKIP, item_id = id' item, d_title = title item, d_price = price item,
         d_score = score item, d_profit_potential = profit_potential item,
         d_reasoning = [Lit ''Already purchased this item''], d_timestamp = ts\<rparr>
      else if budget state \<le> 0 \<or> budget state < price item then
        \<lparr>action = SKIP, item_id = id' item, d_title = title item, d_price = price item,
         d_score = score item, d_profit_potential = profit_potential item,
         d_reasoning = [Lit ''Exceeds budget: $'', Num (price item), Lit '' > $'',
                        Num (budget state)],
         d_timestamp = ts\<rparr>
      else if profit_margin item < MIN_PROFIT_MARGIN then
        \<lparr>action = SKIP, item_id = id' item, d_title = title item, d_price = price item,
         d_score = score item, d_profit_potential = profit_potential item,
         d_reasoning = [Lit ''Profit margin too low: '', Fixed1 (fmul (profit_margin item) 100),
                        Lit ''% < '', Fixed1 20, Lit ''%''],
         d_timestamp = ts\<rparr>
      else if profit_potential item < 50 then
        \<lparr>action = SKIP, item_id = id' item, d_title = title item, d_price = price item,
         d_score = score item, d_profit_potential = profit_potential item,
         d_reasoning = [Lit ''Profit amount too low: $'', Num (profit_potential item),
                        Lit '' < $'', Num 50],
         d_timestamp = ts\<rparr>
      else
        \<lparr>action = BUY, item_id = id' item, d_title = title item, d_price = price item,
         d_score = score item, d_profit_potential = profit_potential item,
         d_reasoning = [Lit ''Strong opportunity: Profit: $'', Num (profit_potential item),
                        Lit '' ('', Fixed1 (fmul (profit_margin item) 100),
                        Lit ''% margin), Score: '', Num (score item)],
         d_timestamp = ts\<rparr>)"
  by (simp add: evaluateOpportunity_def hasPurchased_def validateBudget_iff skip_decision_def
      buy_decision_def reason_purchased_def reason_budget_def reason_margin_def
      reason_profit_def reason_buy_def fmul_min_margin MIN_PROFIT_def
      not_less not_le)

text \<open>
  C1.  For every evaluated listing (a listing has a positive price: the data model says
  so and \<open>validateListing\<close> rejects any other) and every agent state,
  \<open>evaluateOpportunity\<close> applies its checks in this order and stops at the first that
  fails: (1) the listing's id is in \<open>purchasedIds\<close>: SKIP, reason "Already purchased this
  item"; (2) the price exceeds the remaining budget: SKIP, the reason gives the price and
  the budget; (3) the profit margin is below \<open>0.20\<close>: SKIP, the reason gives the margin and
  the required 20, both as percentages through \<open>toFixed(1)\<close>; (4) the profit potential is
  below 50: SKIP, the reason gives the amount and the required 50; (5) otherwise BUY, the
  reason gives the profit, the margin percentage and the score.
\<close>

theorem evaluateOpportunity_check_order:
  assumes "0 < price item"
  shows "evaluateOpportunity item state ts =
     (if id' item \<in> set (purchasedIds state) then
        \<lparr>action = SKIP, item_id = id' item, d_title = title item, d_price = price item,
         d_score = score item, d_profit_potential = profit_potential item,
         d_reasoning = [Lit ''Already purchased this item''], d_timestamp = ts\<rparr>
      else if budget state < price item then
        \<lparr>action = SKIP, item_id = id' item, d_title = title item, d_price = price item,
         d_score = score item, d_profit_potential = profit_potential item,
         d_reasoning = [Lit ''Exceeds budget: $'', Num (price item), Lit '' > $'',
                        Num (budget state)],
         d_timestamp = ts\<rparr>
      else if profit_margin item < MIN_PROFIT_MARGIN then
        \<lparr>action = SKIP, item_id = id' item, d_title = title item, d_price = price item,
         d_score = score item, d_profit_potential = profit_potential item,
         d_reasoning = [Lit ''Profit margin too low: '', Fixed1 (fmul (profit_margin item) 100),
                        Lit ''% < '', Fixed1 20, Lit ''%''],
         d_timestamp = ts\<rparr>
      else if profit_potential item < 50 then
        \<lparr>action = SKIP, item_id = id' item, d_title = title item, d_price = price item,
         d_score = score item, d_profit_potential = profit_potential item,
         d_reasoning = [Lit ''Profit amount too low: $'', Num (profit_potential item),
                        Lit '' < $'', Num 50],
         d_timestamp = ts\<rparr>
      else
        \<lparr>action = BUY, item_id = id' item, d_title = title item, d_price = price item,
         d_score = score item, d_profit_potential = profit_potential item,
         d_reasoning = [Lit ''Strong opportunity: Profit: $'', Num (profit_potential item),
                        Lit '' ('', Fixed1 (fmul (profit_margin item) 100),
                        Lit ''% margin), Score: '', Num (score item)],
         d_timestamp = ts\<rparr>)"
proof -
  from assms have "(budget state \<le> 0 \<or> budget state < price item) \<longleftrightarrow> budget state < price item"
    by auto
  then show ?thesis by (simp only: evaluateOpportunity_cases [of item state ts])
qed

text \<open>
  The five outcomes at concrete listings: an id already bought, a price above the budget,
  a margin of 12.5 percent, a profit of 10, and a listing that passes every check.
\<close>

theorem evaluateOpportunity_check_order_witness:
  "0 < price (mk_item ''a'' 10 50 500)
   \<and> d_reasoning (evaluateOpportunity (mk_item ''a'' 10 50 500) bought_a ''t'')
     = [Lit ''Already purchased this item'']
   \<and> d_reasoning (evaluateOpportunity (mk_item ''b'' 2000 (1 / 4) 500) bought_a ''t'')
     = [Lit ''Exceeds budget: $'', Num 2000, Lit '' > $'', Num 1000]
   \<and> d_reasoning (evaluateOpportunity (mk_item ''b'' 800 (1 / 8) 100) bought_a ''t'')
     = [Lit ''Profit margin too low: '', Fixed1 (25 / 2), Lit ''% < '', Fixed1 20, Lit ''%'']
   \<and> d_reasoning (evaluateOpportunity (mk_item ''b'' 20 (1 / 2) 10) bought_a ''t'')
     = [Lit ''Profit amount too low: $'', Num 10, Lit '' < $'', Num 50]
   \<and> action (evaluateOpportunity (mk_item ''b'' 120 (1 / 2) 60) bought_a ''t'') = BUY
   \<and> d_reasoning (evaluateOpportunity (mk_item ''b'' 120 (1 / 2) 60) bought_a ''t'')
     = [Lit ''Strong opportunity: Profit: $'', Num 60, Lit '' ('', Fixed1 50,
        Lit ''% margin), Score: '', Num 85]"
proof -
  have p: "0 < price (mk_item ''a'' 10 50 500)" "0 < price (mk_item ''b'' 2000 (1 / 4) 500)"
    "0 < price (mk_item ''b'' 800 (1 / 8) 100)" "0 < price (mk_item ''b'' 20 (1 / 2) 10)"
    "0 < price (mk_item ''b'' 120 (1 / 2) 60)"
    by (simp_all add: mk_item_def)
  have m: "fmul (1 / 8) 100 = 25 / 2" "fmul (1 / 2) 100 = 50"
    by (simp_all add: fl_eval)
  from evaluateOpportunity_check_order [OF p(1), of bought_a "''t''"]
    evaluateOpportunity_check_order [OF p(2), of bought_a "''t''"]
    evaluateOpportunity_check_order [OF p(3), of bought_a "''t''"]
    evaluateOpportunity_check_order [OF p(4), of bought_a "''t''"]
    evaluateOpportunity_check_order [OF p(5), of bought_a "''t''"]
    p(1) m
  show ?thesis by (simp add: mk_item_def bought_a_def fresh_state_def min_margin_value)
qed

text \<open>
  C2.  In a decision batch the effects of a BUY are applied before the next listing is
  evaluated: the id is added to \<open>purchasedIds\<close>, the budget goes down by the price,
  \<open>items_purchased\<close> goes up by 1, \<open>total_invested\<close> by the price, \<open>expected_profit\<close> by
  the profit potential, \<open>potential_revenue\<close> by price plus profit potential, and
  \<open>expected_roi\<close> becomes \<open>expected_profit / total_invested * 100\<close>, or 0 when
  \<open>total_invested\<close> is 0.  A SKIP leaves the state as it is.  The rest of the batch runs
  on the state so obtained.  This holds for a price of 0 or more in every state whose
  statistics are consistent, as they are from the initial state on
  (\<open>stats_consistent_initial\<close>, \<open>stats_consistent_loop\<close>); each sum, difference, quotient
  and product is the rounded one of the doubles.
\<close>

theorem makeDecisions_buy_side_effects:
  assumes "s = (case existing of Some s0 \<Rightarrow> s0 | None \<Rightarrow> fresh_state b)"
    and "stats_consistent (stats s)"
    and "0 \<le> price item"
  shows "makeDecisions (item # rest) b clock existing =
     (let d = evaluateOpportunity item s (clock 0);
          s' = (if action d = BUY then
                  \<lparr>budget = fsub (budget s) (price item),
                   purchasedIds = purchasedIds s @ [id' item],
                   stats =
                     \<lparr>listings_scanned = listings_scanned (stats s),
                      items_purchased = fadd (items_purchased (stats s)) 1,
                      items_listed = items_listed (stats s),
                      total_invested = fadd (total_invested (stats s)) (price item),
                      potential_revenue =
                        fadd (potential_revenue (stats s))
                          (fadd (price item) (profit_potential item)),
                      expected_profit =
                        fadd (expected_profit (stats s)) (profit_potential item),
                      expected_roi =
                        (if fadd (total_invested (stats s)) (price item) = 0 then 0
                         else fmul (fdiv (fadd (expected_profit (stats s)) (profit_potential item))
                                      (fadd (total_invested (stats s)) (price item))) 100)\<rparr>\<rparr>
                else s);
          (ds, fin) = makeDecisions rest b (\<lambda>n. clock (Suc n)) (Some s')
      in (d # ds, fin))"
proof -
  from assms(2) have ti: "0 \<le> total_invested (stats s)"
    and roi: "total_invested (stats s) = 0 \<longrightarrow> expected_roi (stats s) = 0"
    by (simp_all add: stats_consistent_def)
  have guard: "(if 0 < fadd (total_invested (stats s)) (price item)
       then fmul (fdiv (fadd (expected_profit (stats s)) (profit_potential item))
                    (fadd (total_invested (stats s)) (price item))) 100
       else expected_roi (stats s))
    = (if fadd (total_invested (stats s)) (price item) = 0 then 0
       else fmul (fdiv (fadd (expected_profit (stats s)) (profit_potential item))
                    (fadd (total_invested (stats s)) (price item))) 100)"
    using fadd_nonneg [OF ti assms(3)] fadd_eq_0_iff [OF ti assms(3)] roi
    by (auto simp: less_le)
  show ?thesis
  proof (cases "action (evaluateOpportunity item s (clock 0)) = BUY")
    case True
    then show ?thesis
      unfolding makeDecisions_def assms(1) [symmetric]
      by (simp add: Let_def loop_shift apply_decision_BUY guard)
  next
    case False
    then show ?thesis
      unfolding makeDecisions_def assms(1) [symmetric]
      by (simp add: Let_def loop_shift apply_decision_SKIP)
  qed
qed

text \<open>
  A batch of a BUY (200, profit 100) and a SKIP on a fresh state with budget 1000: the
  state after it.
\<close>

theorem makeDecisions_buy_side_effects_witness:
  "stats_consistent (stats (fresh_state 1000))
   \<and> 0 \<le> price (mk_item ''a'' 200 (1 / 2) 100)
   \<and> makeDecisions [mk_item ''a'' 200 (1 / 2) 100, mk_item ''b'' 80 (1 / 8) 10] 1000 noon None
     = ([evaluateOpportunity (mk_item ''a'' 200 (1 / 2) 100) (fresh_state 1000) (noon 0),
         skip_decision (mk_item ''b'' 80 (1 / 8) 10) (reason_margin (1 / 8)) (noon 1)],
        \<lparr>budget = 800, purchasedIds = [''a''],
         stats = \<lparr>listings_scanned = 0, items_purchased = 1, items_listed = 0,
                  total_invested = 200, potential_revenue = 300, expected_profit = 100,
                  expected_roi = 50\<rparr>\<rparr>)"
proof -
  have c: "stats_consistent (stats (fresh_state 1000))" by (rule stats_consistent_initial)
  have p: "0 \<le> price (mk_item ''a'' 200 (1 / 2) 100)" by (simp add: mk_item_def)
  have s: "fresh_state 1000 = (case None of Some s0 \<Rightarrow> s0 | None \<Rightarrow> fresh_state 1000)"
    by simp
  have q: "fdiv 100 200 = 1 / 2" by (simp add: fl_eval)
  from makeDecisions_buy_side_effects
    [OF s c p, of "[mk_item ''b'' 80 (1 / 8) 10]" noon] c p
  show ?thesis by (simp add: eval_defs q)
qed

text \<open>
  C3 (as amended).  One run of \<open>makeDecisions\<close> that starts with a non-negative budget
  \<open>B\<close> (the budget of the state given, or the \<open>budget\<close> argument when no state is given)
  never leaves a negative budget.  When \<open>B\<close> and the prices are whole numbers below
  \<open>2 ^ 53\<close>, the prices not negative, no subtraction rounds: the prices of the BUY
  decisions sum to at most \<open>B\<close> and the budget left is \<open>B\<close> minus that sum.  Two listings
  priced 300 against a budget of 500 give at most one BUY.
\<close>

theorem makeDecisions_within_budget:
  assumes "makeDecisions evaluated b clock existing = (ds, fin)"
    and "B = (case existing of Some s \<Rightarrow> budget s | None \<Rightarrow> b)"
    and "0 \<le> B"
  shows "0 \<le> budget fin
    \<and> (whole B \<and> (\<forall>item\<in>set evaluated. whole (price item) \<and> 0 \<le> price item) \<longrightarrow>
         sum_list (map d_price (buys ds)) \<le> B
         \<and> budget fin = B - sum_list (map d_price (buys ds)))
    \<and> (B = 500 \<and> map price evaluated = [300, 300] \<longrightarrow> length (buys ds) \<le> 1)"
proof -
  define s where "s = (case existing of Some s0 \<Rightarrow> s0 | None \<Rightarrow> fresh_state b)"
  have B: "B = budget s"
    using assms(2) by (simp add: s_def fresh_state_def split: option.splits)
  from assms(1) have run: "makeDecisions_loop clock 0 evaluated s = (ds, fin)"
    by (simp add: makeDecisions_def s_def)
  from loop_budget [OF run] assms(3) B have a: "0 \<le> budget fin" by simp
  have b: "sum_list (map d_price (buys ds)) \<le> B
      \<and> budget fin = B - sum_list (map d_price (buys ds))"
    if "whole B" "\<forall>item\<in>set evaluated. whole (price item) \<and> 0 \<le> price item"
    using loop_budget_whole [OF run _ that(2)] that(1) a B by simp
  have c: "length (buys ds) \<le> 1" if "B = 500" and pr: "map price evaluated = [300, 300]"
  proof -
    have w: "whole B" "whole (300 :: rat)" by (simp_all add: that(1) whole_numeral)
    have "\<forall>item\<in>set evaluated. price item \<in> set (map price evaluated)" by simp
    with pr have "\<forall>item\<in>set evaluated. price item = 300" by simp
    with w(2) have "\<forall>item\<in>set evaluated. whole (price item) \<and> 0 \<le> price item" by simp
    from b [OF w(1) this] have le: "sum_list (map d_price (buys ds)) \<le> B" ..
    from loop_prices [OF run] pr have "map d_price ds = [300, 300]" by simp
    then obtain d1 d2 where ds: "ds = [d1, d2]" "d_price d1 = 300" "d_price d2 = 300"
      by (auto simp: map_eq_Cons_conv)
    show ?thesis
    proof (rule ccontr)
      assume "\<not> length (buys ds) \<le> 1"
      with ds have "buys ds = [d1, d2]" by (auto simp: buys_def split: if_splits)
      with ds le that(1) show False by simp
    qed
  qed
  from a b c show ?thesis by blast
qed

text \<open>Two good listings priced 300 against 500: the first is bought, the second is not.\<close>

theorem makeDecisions_within_budget_witness:
  "(0::rat) \<le> 500
   \<and> whole 500
   \<and> map action (fst (makeDecisions [mk_item ''a'' 300 (1 / 2) 150, mk_item ''b'' 300 (1 / 2) 150]
        500 noon None)) = [BUY, SKIP]
   \<and> length (buys (fst (makeDecisions [mk_item ''a'' 300 (1 / 2) 150, mk_item ''b'' 300 (1 / 2) 150]
        500 noon None))) \<le> 1
   \<and> budget (snd (makeDecisions [mk_item ''a'' 300 (1 / 2) 150, mk_item ''b'' 300 (1 / 2) 150]
        500 noon None)) = 200"
proof -
  let ?r = "makeDecisions [mk_item ''a'' 300 (1 / 2) 150, mk_item ''b'' 300 (1 / 2) 150]
        500 noon None"
  have run: "?r = (fst ?r, snd ?r)" by simp
  have acts: "map action (fst ?r) = [BUY, SKIP]" by (simp add: eval_defs)
  have pr: "map price [mk_item ''a'' 300 (1 / 2) 150, mk_item ''b'' 300 (1 / 2) 150] = [300, 300]"
    by (simp add: mk_item_def)
  have w: "whole 500" "\<forall>item\<in>set [mk_item ''a'' 300 (1 / 2) 150, mk_item ''b'' 300 (1 / 2) 150].
      whole (price item) \<and> 0 \<le> price item"
    by (simp_all add: whole_numeral mk_item_def)
  have sm: "sum_list (map d_price (buys (fst ?r))) = 300" by (simp add: eval_defs)
  from makeDecisions_within_budget [OF run, of 500] pr sm acts w show ?thesis by simp
qed

text \<open>
  C3 as stated fails in its bound on the sum.  Against a budget of 5000, listings priced
  0.08 and 4999.92 (the doubles these literals denote) are both bought: 5000 - 0.08
  rounds to the double 4999.92, and the two prices add up to more than 5000.  Against a
  budget of \<open>10 ^ 16\<close>, listings priced 1 and \<open>10 ^ 16\<close> are both bought.  The
  listings are valued against historical averages of 200, 8000, 101 and \<open>2 * 10 ^ 16\<close>.
\<close>

theorem makeDecisions_overspend_counterexample:
  "fl d_0_08 = d_0_08 \<and> fl d_4999_92 = d_4999_92
   \<and> map action (fst (makeDecisions
        [valued_item ''a'' d_0_08 200, valued_item ''b'' d_4999_92 8000] 5000 noon None))
     = [BUY, BUY]
   \<and> 5000 < sum_list (map d_price (buys (fst (makeDecisions
        [valued_item ''a'' d_0_08 200, valued_item ''b'' d_4999_92 8000] 5000 noon None))))
   \<and> map action (fst (makeDecisions
        [valued_item ''a'' 1 101, valued_item ''b'' 10000000000000000 20000000000000000]
        10000000000000000 noon None))
     = [BUY, BUY]
   \<and> 10000000000000000 < sum_list (map d_price (buys (fst (makeDecisions
        [valued_item ''a'' 1 101, valued_item ''b'' 10000000000000000 20000000000000000]
        10000000000000000 noon None))))"
proof -
  have doubles: "fl d_0_08 = d_0_08" "fl d_4999_92 = d_4999_92"
    "fl 50 = 50" "fl 1000 = 1000" "fl 10000000000000000 = 10000000000000000"
    by (simp_all add: fl_eval d_0_08_def d_4999_92_def)
  have rounded: "fsub 5000 d_0_08 = d_4999_92"
    "fsub 10000000000000000 1 = 10000000000000000"
    by (simp_all add: fl_eval d_0_08_def d_4999_92_def)
  have order: "d_0_08 \<le> 5000" "0 < d_4999_92" "5000 < d_0_08 + d_4999_92"
    by (simp_all add: d_0_08_def d_4999_92_def)
  have good:
    "50 \<le> profit_potential (valued_item ''a'' d_0_08 200)"
    "MIN_PROFIT_MARGIN \<le> profit_margin (valued_item ''a'' d_0_08 200)"
    "50 \<le> profit_potential (valued_item ''b'' d_4999_92 8000)"
    "MIN_PROFIT_MARGIN \<le> profit_margin (valued_item ''b'' d_4999_92 8000)"
    "50 \<le> profit_potential (valued_item ''a'' 1 101)"
    "MIN_PROFIT_MARGIN \<le> profit_margin (valued_item ''a'' 1 101)"
    "50 \<le> profit_potential (valued_item ''b'' 10000000000000000 20000000000000000)"
    "MIN_PROFIT_MARGIN \<le> profit_margin (valued_item ''b'' 10000000000000000 20000000000000000)"
    using valued_item_good [of d_0_08 50 200 "''a''"] valued_item_good [of d_4999_92 1000 8000 "''b''"]
      valued_item_good [of 1 50 101 "''a''"]
      valued_item_good [of 10000000000000000 10000000000000000 20000000000000000 "''b''"]
      doubles(3-5)
    by (simp_all add: d_0_08_def d_4999_92_def)
  note run = makeDecisions_def Let_def fresh_state_def buys_def split_beta
    evaluateOpportunity_BUY_iff apply_decision_budget apply_decision_purchasedIds
    valued_item_fields(1,2)
  have small: "map action (fst (makeDecisions
        [valued_item ''a'' d_0_08 200, valued_item ''b'' d_4999_92 8000] 5000 noon None))
     = [BUY, BUY]"
    "sum_list (map d_price (buys (fst (makeDecisions
        [valued_item ''a'' d_0_08 200, valued_item ''b'' d_4999_92 8000] 5000 noon None))))
     = d_0_08 + d_4999_92"
    by (simp_all add: run good rounded order)
  have large: "map action (fst (makeDecisions
        [valued_item ''a'' 1 101, valued_item ''b'' 10000000000000000 20000000000000000]
        10000000000000000 noon None))
     = [BUY, BUY]"
    "sum_list (map d_price (buys (fst (makeDecisions
        [valued_item ''a'' 1 101, valued_item ''b'' 10000000000000000 20000000000000000]
        10000000000000000 noon None))))
     = 10000000000000001"
    by (simp_all add: run good rounded)
  from doubles(1,2) small large order(3) show ?thesis by simp
qed

text \<open>
  C4.  A listing whose id is in \<open>purchasedIds\<close> is skipped with the reasoning "Already
  purchased this item", whatever its score, price and profit figures.  Over any sequence
  of decision batches of the actor, from any actor state, no id receives two BUY
  decisions and no id already in \<open>purchasedIds\<close> receives one: the ids of the BUY
  decisions are distinct, none was in \<open>purchasedIds\<close> at the start, and \<open>purchasedIds\<close>
  at the end is the set at the start followed by those ids.
\<close>

theorem purchased_never_bought_again:
  "(hasPurchased (id' item) s \<longrightarrow>
      evaluateOpportunity item s ts =
        \<lparr>action = SKIP, item_id = id' item, d_title = title item, d_price = price item,
         d_score = score item, d_profit_potential = profit_potential item,
         d_reasoning = [Lit ''Already purchased this item''], d_timestamp = ts\<rparr>)
   \<and> (run_batches a batches = (ds, a') \<longrightarrow>
        distinct (map item_id (buys ds))
        \<and> set (map item_id (buys ds)) \<inter> set (purchasedIds (actorState a)) = {}
        \<and> purchasedIds (actorState a') = purchasedIds (actorState a) @ map item_id (buys ds))"
proof -
  have "evaluateOpportunity item s ts =
        \<lparr>action = SKIP, item_id = id' item, d_title = title item, d_price = price item,
         d_score = score item, d_profit_potential = profit_potential item,
         d_reasoning = [Lit ''Already purchased this item''], d_timestamp = ts\<rparr>"
    if "hasPurchased (id' item) s"
    using that by (simp add: evaluateOpportunity_def skip_decision_def reason_purchased_def)
  moreover note run_batches_ids [of a batches ds a']
  ultimately show ?thesis by blast
qed

lemma run_two:
  "map action (fst (run_batches new_actor two_batches)) = [BUY, BUY, SKIP, BUY]"
  "map item_id (buys (fst (run_batches new_actor two_batches))) = [''a'', ''b'', ''c'']"
  "purchasedIds (actorState (snd (run_batches new_actor two_batches))) = [''a'', ''b'', ''c'']"
  by (simp_all add: run_eval split_beta)

text \<open>
  Two batches on a new actor: \<open>a\<close> and \<open>b\<close> are bought in the first batch; in the second
  \<open>a\<close> comes back at a better price and is skipped, \<open>c\<close> is bought.
\<close>

theorem purchased_never_bought_again_witness:
  "hasPurchased (id' (mk_item ''a'' 10 2 500)) bought_a
   \<and> action (evaluateOpportunity (mk_item ''a'' 10 2 500) bought_a ''t'') = SKIP
   \<and> d_reasoning (evaluateOpportunity (mk_item ''a'' 10 2 500) bought_a ''t'')
       = [Lit ''Already purchased this item'']
   \<and> map action (fst (run_batches new_actor two_batches)) = [BUY, BUY, SKIP, BUY]
   \<and> purchasedIds (actorState (snd (run_batches new_actor two_batches))) = [''a'', ''b'', ''c'']"
proof -
  have h: "hasPurchased (id' (mk_item ''a'' 10 2 500)) bought_a"
    by (simp add: hasPurchased_def bought_a_def mk_item_def)
  have run: "run_batches new_actor two_batches
      = (fst (run_batches new_actor two_batches), snd (run_batches new_actor two_batches))"
    by simp
  note ids = run_two(2)
  have start: "purchasedIds (actorState new_actor) = []"
    by (simp add: new_actor_def createInitialState_def)
  from purchased_never_bought_again [of "mk_item ''a'' 10 2 500" bought_a "''t''" new_actor two_batches
      "fst (run_batches new_actor two_batches)" "snd (run_batches new_actor two_batches)"]
    h run ids start run_two(1)
  show ?thesis by simp
qed

text \<open>
  C5 (as amended).  The decision engine writes the agent state only for a BUY:
  \<open>makeDecisions\<close> on a given state leaves the whole state as it is when it emits no BUY.
  The actor's own operations write without a BUY, each in its place: its \<open>makeDecisions\<close>
  sets the budget to the \<open>budget\<close> argument (when defined) and adds the number of
  listings to \<open>listings_scanned\<close>, and with no BUY it changes nothing else and hands
  nothing to the other actors; \<open>updateConfig\<close> sets the budget to \<open>config.budget\<close> (when
  defined) and changes nothing else; \<open>resetState\<close> puts the initial state in place of the
  whole state; the constructor starts from the initial state, or from the stored state
  with each purchased id once; \<open>getStats\<close> returns the statistics and changes nothing.
\<close>

theorem state_changes_without_buy:
  "(makeDecisions evaluated b clock (Some s) = (ds, fin) \<and> buys ds = [] \<longrightarrow> fin = s)
   \<and> (DecisionActor_makeDecisions batch bo ck a = (dsa, handed, a') \<and> buys dsa = [] \<longrightarrow>
        purchasedIds (actorState a') = purchasedIds (actorState a)
        \<and> budget (actorState a') = (case bo of Some v \<Rightarrow> v | None \<Rightarrow> budget (actorState a))
        \<and> stats (actorState a') =
            (stats (actorState a))\<lparr>listings_scanned :=
               fadd (listings_scanned (stats (actorState a))) (of_nat (length batch))\<rparr>
        \<and> handed = [])
   \<and> actorState (updateConfig config a) =
        (actorState a)\<lparr>budget :=
           (case cfg_budget config of Some v \<Rightarrow> v | None \<Rightarrow> budget (actorState a))\<rparr>
   \<and> actorState (resetState a) =
        \<lparr>budget = 5000, purchasedIds = [],
         stats = \<lparr>listings_scanned = 0, items_purchased = 0, items_listed = 0,
                  total_invested = 0, potential_revenue = 0, expected_profit = 0,
                  expected_roi = 0\<rparr>\<rparr>
   \<and> actorState (new_DecisionActor None) = actorState (resetState a)
   \<and> actorState (new_DecisionActor (Some p)) = p\<lparr>purchasedIds := set_of_array (purchasedIds p)\<rparr>
   \<and> distinct (purchasedIds (actorState (new_DecisionActor (Some p))))
   \<and> set (purchasedIds (actorState (new_DecisionActor (Some p)))) = set (purchasedIds p)
   \<and> actorState (snd (getStats a)) = actorState a"
proof -
  have one: "fin = s" if "makeDecisions evaluated b clock (Some s) = (ds, fin)" "buys ds = []"
    using that loop_no_buy [of clock 0 evaluated s ds fin] by (simp add: makeDecisions_def)
  have two: "purchasedIds (actorState a') = purchasedIds (actorState a)
        \<and> budget (actorState a') = (case bo of Some v \<Rightarrow> v | None \<Rightarrow> budget (actorState a))
        \<and> stats (actorState a') =
            (stats (actorState a))\<lparr>listings_scanned :=
               fadd (listings_scanned (stats (actorState a))) (of_nat (length batch))\<rparr>
        \<and> handed = []"
    if run: "DecisionActor_makeDecisions batch bo ck a = (dsa, handed, a')"
      and nb: "buys dsa = []"
  proof -
    from actor_makeDecisions_loop [OF run] obtain f where
      l: "makeDecisions_loop ck 0 batch
              (case bo of Some v \<Rightarrow> (actorState a)\<lparr>budget := v\<rparr> | None \<Rightarrow> actorState a)
            = (dsa, f)"
      and st: "actorState a' = f\<lparr>stats := (stats f)\<lparr>listings_scanned :=
                 fadd (listings_scanned (stats f)) (of_nat (length batch))\<rparr>\<rparr>"
      and h: "handed = processPurchases dsa batch"
      by blast
    from loop_no_buy [OF l nb]
    have f: "f = (case bo of Some v \<Rightarrow> (actorState a)\<lparr>budget := v\<rparr> | None \<Rightarrow> actorState a)" .
    from st h nb show ?thesis
      by (simp add: f processPurchases_no_buy split: option.splits)
  qed
  have three: "actorState (updateConfig config a) =
        (actorState a)\<lparr>budget :=
           (case cfg_budget config of Some v \<Rightarrow> v | None \<Rightarrow> budget (actorState a))\<rparr>"
    by (simp add: updateConfig_def saveState_def split: option.splits)
  have four: "actorState (resetState a) =
        \<lparr>budget = 5000, purchasedIds = [],
         stats = \<lparr>listings_scanned = 0, items_purchased = 0, items_listed = 0,
                  total_invested = 0, potential_revenue = 0, expected_profit = 0,
                  expected_roi = 0\<rparr>\<rparr>"
    by (simp add: resetState_def saveState_def createInitialState_def)
  have five: "actorState (new_DecisionActor None) = actorState (resetState a)"
    by (simp add: new_DecisionActor_def resetState_def saveState_def)
  have six: "actorState (new_DecisionActor (Some p)) = p\<lparr>purchasedIds := set_of_array (purchasedIds p)\<rparr>"
    by (simp add: new_DecisionActor_def)
  have seven: "distinct (purchasedIds (actorState (new_DecisionActor (Some p))))"
    "set (purchasedIds (actorState (new_DecisionActor (Some p)))) = set (purchasedIds p)"
    using set_of_array_set [of "purchasedIds p"] by (simp_all add: new_DecisionActor_def)
  have eight: "actorState (snd (getStats a)) = actorState a"
    by (simp add: getStats_def)
  from one two three four five six seven eight show ?thesis by blast
qed

lemma skipped_batch:
  "buys (fst (DecisionActor_makeDecisions [mk_item ''x'' 80 (1 / 8) 10] (Some 100) noon new_actor))
     = []"
  "buys (fst (makeDecisions [mk_item ''x'' 80 (1 / 8) 10] 5000 noon (Some createInitialState)))
     = []"
  by (simp_all add: run_eval split_beta)

text \<open>
  On a new actor, a batch of one listing with a margin of 12.5 percent and the budget
  argument 100.
\<close>

theorem state_changes_without_buy_witness:
  "buys (fst (DecisionActor_makeDecisions [mk_item ''x'' 80 (1 / 8) 10] (Some 100) noon new_actor))
     = []
   \<and> purchasedIds (actorState (snd (snd
        (DecisionActor_makeDecisions [mk_item ''x'' 80 (1 / 8) 10] (Some 100) noon new_actor))))
     = []
   \<and> budget (actorState (snd (snd
        (DecisionActor_makeDecisions [mk_item ''x'' 80 (1 / 8) 10] (Some 100) noon new_actor))))
     = 100
   \<and> listings_scanned (stats (actorState (snd (snd
        (DecisionActor_makeDecisions [mk_item ''x'' 80 (1 / 8) 10] (Some 100) noon new_actor)))))
     = 1
   \<and> snd (makeDecisions [mk_item ''x'' 80 (1 / 8) 10] 5000 noon (Some createInitialState))
     = createInitialState
   \<and> purchasedIds (actorState (new_DecisionActor (Some stored_state))) = [''a'', ''b'']"
proof -
  let ?r = "DecisionActor_makeDecisions [mk_item ''x'' 80 (1 / 8) 10] (Some 100) noon new_actor"
  let ?m = "makeDecisions [mk_item ''x'' 80 (1 / 8) 10] 5000 noon (Some createInitialState)"
  note nb = skipped_batch(1) and nb' = skipped_batch(2)
  have run: "?r = (fst ?r, fst (snd ?r), snd (snd ?r))" by simp
  have run': "?m = (fst ?m, snd ?m)" by simp
  have start: "purchasedIds (actorState new_actor) = []"
    "listings_scanned (stats (actorState new_actor)) = 0"
    by (simp_all add: new_actor_def createInitialState_def)
  have one: "fadd 0 (of_nat (length [mk_item ''x'' 80 (1 / 8) 10])) = 1"
    by (simp add: whole_eval)
  have stored: "set_of_array (purchasedIds stored_state) = [''a'', ''b'']"
    by (simp add: set_of_array_def stored_state_def)
  note inst = state_changes_without_buy
      [where evaluated = "[mk_item ''x'' 80 (1 / 8) 10]" and b = 5000 and clock = noon
      and s = createInitialState and ds = "fst ?m" and fin = "snd ?m"
      and batch = "[mk_item ''x'' 80 (1 / 8) 10]" and bo = "Some 100" and ck = noon
      and a = new_actor and dsa = "fst ?r" and handed = "fst (snd ?r)" and a' = "snd (snd ?r)"
      and p = stored_state]
  from inst run' nb' have a: "snd ?m = createInitialState" by blast
  from inst run nb have b: "purchasedIds (actorState (snd (snd ?r))) = purchasedIds (actorState new_actor)"
    and c: "budget (actorState (snd (snd ?r))) = (case Some 100 of Some v \<Rightarrow> v | None \<Rightarrow> budget (actorState new_actor))"
    and d: "stats (actorState (snd (snd ?r))) =
            (stats (actorState new_actor))\<lparr>listings_scanned :=
               fadd (listings_scanned (stats (actorState new_actor)))
                 (of_nat (length [mk_item ''x'' 80 (1 / 8) 10]))\<rparr>"
    by blast+
  from inst have e: "actorState (new_DecisionActor (Some stored_state))
      = stored_state\<lparr>purchasedIds := set_of_array (purchasedIds stored_state)\<rparr>"
    by blast
  from d start(2) one have d': "listings_scanned (stats (actorState (snd (snd ?r)))) = 1"
    by simp
  from e stored have e': "purchasedIds (actorState (new_DecisionActor (Some stored_state))) = [''a'', ''b'']"
    by simp
  from nb a b c d' e' start(1) show ?thesis by simp
qed

lemma skipped_batch_state:
  "budget (actorState (snd (snd
        (DecisionActor_makeDecisions [mk_item ''x'' 80 (1 / 8) 10] (Some 100) noon new_actor))))
     = 100"
  "listings_scanned (stats (actorState (snd (snd
        (DecisionActor_makeDecisions [mk_item ''x'' 80 (1 / 8) 10] (Some 100) noon new_actor)))))
     = 1"
proof -
  let ?r = "DecisionActor_makeDecisions [mk_item ''x'' 80 (1 / 8) 10] (Some 100) noon new_actor"
  have run: "?r = (fst ?r, fst (snd ?r), snd (snd ?r))" by simp
  from actor_makeDecisions_loop [OF run] obtain f where
    l: "makeDecisions_loop noon 0 [mk_item ''x'' 80 (1 / 8) 10]
          (case Some 100 of Some v \<Rightarrow> (actorState new_actor)\<lparr>budget := v\<rparr> | None \<Rightarrow> actorState new_actor)
        = (fst ?r, f)"
    and st: "actorState (snd (snd ?r)) = f\<lparr>stats := (stats f)\<lparr>listings_scanned :=
                 fadd (listings_scanned (stats f)) (of_nat (length [mk_item ''x'' 80 (1 / 8) 10]))\<rparr>\<rparr>"
    by blast
  from loop_no_buy [OF l skipped_batch(1)]
  have f: "f = (actorState new_actor)\<lparr>budget := 100\<rparr>" by simp
  show "budget (actorState (snd (snd ?r))) = 100"
    "listings_scanned (stats (actorState (snd (snd ?r)))) = 1"
    unfolding st f by (simp_all add: new_actor_def createInitialState_def whole_eval)
qed

text \<open>
  C5 as stated fails: the same batch emits no BUY and changes both the budget (5000 to
  100) and the statistics (\<open>listings_scanned\<close>); \<open>updateConfig\<close> with a budget of 100
  emits no decision at all and changes the budget; after a purchase, \<open>resetState\<close> emits
  no decision and empties \<open>purchasedIds\<close>.
\<close>

theorem state_changes_without_buy_counterexample:
  "buys (fst (DecisionActor_makeDecisions [mk_item ''x'' 80 (1 / 8) 10] (Some 100) noon new_actor))
     = []
   \<and> budget (actorState (snd (snd
        (DecisionActor_makeDecisions [mk_item ''x'' 80 (1 / 8) 10] (Some 100) noon new_actor))))
     \<noteq> budget (actorState new_actor)
   \<and> stats (actorState (snd (snd
        (DecisionActor_makeDecisions [mk_item ''x'' 80 (1 / 8) 10] (Some 100) noon new_actor))))
     \<noteq> stats (actorState new_actor)
   \<and> budget (actorState (updateConfig budget_only new_actor)) \<noteq> budget (actorState new_actor)
   \<and> purchasedIds (actorState (snd (run_batches new_actor two_batches))) = [''a'', ''b'', ''c'']
   \<and> purchasedIds (actorState (resetState (snd (run_batches new_actor two_batches)))) = []"
proof -
  let ?r = "DecisionActor_makeDecisions [mk_item ''x'' 80 (1 / 8) 10] (Some 100) noon new_actor"
  have start: "budget (actorState new_actor) = 5000"
    "listings_scanned (stats (actorState new_actor)) = 0"
    by (simp_all add: new_actor_def createInitialState_def)
  from skipped_batch_state(1) start(1)
  have b: "budget (actorState (snd (snd ?r))) \<noteq> budget (actorState new_actor)" by simp
  from skipped_batch_state(2) start(2)
  have s: "stats (actorState (snd (snd ?r))) \<noteq> stats (actorState new_actor)" by auto
  have u: "budget (actorState (updateConfig budget_only new_actor)) \<noteq> budget (actorState new_actor)"
    by (simp add: updateConfig_def saveState_def budget_only_def start(1))
  have r: "purchasedIds (actorState (resetState (snd (run_batches new_actor two_batches)))) = []"
    by (simp add: resetState_def saveState_def createInitialState_def)
  from skipped_batch(1) b s u run_two(3) r show ?thesis by blast
qed

text \<open>
  C10 (as amended).  \<open>validateBudget price budget\<close> is true exactly when the budget is
  positive and the price is at most the budget.  In a state whose budget is 0 or less
  every listing is skipped; a listing that is not already purchased is skipped with the
  budget reasoning, also when its price does not exceed the budget.
\<close>

theorem exhausted_budget_skips:
  "(validateBudget p b \<longleftrightarrow> 0 < b \<and> p \<le> b)
   \<and> (budget s \<le> 0 \<longrightarrow> action (evaluateOpportunity item s ts) = SKIP)
   \<and> (budget s \<le> 0 \<and> \<not> hasPurchased (id' item) s \<longrightarrow>
        evaluateOpportunity item s ts =
          \<lparr>action = SKIP, item_id = id' item, d_title = title item, d_price = price item,
           d_score = score item, d_profit_potential = profit_potential item,
           d_reasoning = [Lit ''Exceeds budget: $'', Num (price item), Lit '' > $'',
                          Num (budget s)],
           d_timestamp = ts\<rparr>)"
  by (auto simp: validateBudget_def evaluateOpportunity_def skip_decision_def
      reason_budget_def)

text \<open>Price 0 against budget 0, for a listing that was not bought before.\<close>

theorem exhausted_budget_skips_witness:
  "budget (fresh_state 0) \<le> 0
   \<and> \<not> hasPurchased (id' (mk_item ''item-1'' 0 (1 / 2) 100)) (fresh_state 0)
   \<and> \<not> validateBudget 0 0
   \<and> validateBudget 300 500
   \<and> action (evaluateOpportunity (mk_item ''item-1'' 0 (1 / 2) 100) (fresh_state 0) ''t'') = SKIP
   \<and> d_reasoning (evaluateOpportunity (mk_item ''item-1'' 0 (1 / 2) 100) (fresh_state 0) ''t'')
       = [Lit ''Exceeds budget: $'', Num 0, Lit '' > $'', Num 0]"
proof -
  have b: "budget (fresh_state 0) \<le> 0" by (simp add: fresh_state_def)
  have h: "\<not> hasPurchased (id' (mk_item ''item-1'' 0 (1 / 2) 100)) (fresh_state 0)"
    by (simp add: hasPurchased_def fresh_state_def)
  from exhausted_budget_skips [of 0 0 "fresh_state 0" "mk_item ''item-1'' 0 (1 / 2) 100" "''t''"]
    exhausted_budget_skips [of 300 500 "fresh_state 0" "mk_item ''item-1'' 0 (1 / 2) 100" "''t''"]
    b h
  show ?thesis by (simp add: mk_item_def fresh_state_def)
qed

text \<open>
  C10 as stated fails for a listing that is already purchased: with budget 0 and \<open>a\<close> in
  \<open>purchasedIds\<close>, listing \<open>a\<close> is skipped with the already-purchased reasoning, not with
  the budget reasoning.
\<close>

theorem exhausted_budget_skips_counterexample:
  "budget spent_a \<le> 0
   \<and> d_reasoning (evaluateOpportunity (mk_item ''a'' 0 (1 / 2) 100) spent_a ''t'')
       = [Lit ''Already purchased this item'']
   \<and> d_reasoning (evaluateOpportunity (mk_item ''a'' 0 (1 / 2) 100) spent_a ''t'')
       \<noteq> reason_budget (price (mk_item ''a'' 0 (1 / 2) 100)) (budget spent_a)"
  by (simp add: eval_defs)

section \<open>Claims about the valuation scores\<close>

lemma fl_half_facts:
  "fl (1 / 2) = 1 / 2" "fl (1 / 4) = 1 / 4" "fl (3 / 4) = 3 / 4" "fl 1 = 1" "fl 50 = 50"
  "fl 100 = 100" "fl 75 = 75"
  by (simp_all add: fl_eval)

text \<open>Outside the claim: for an MSRP of 0 or less the score is 0 at every price.\<close>

lemma msrp_nonpos: "m \<le> 0 \<Longrightarrow> calculateMSRPScore p m = 0"
proof (cases "m = 0 \<or> m \<le> p")
  case True
  then show ?thesis by (auto simp: calculateMSRPScore_def)
next
  case False
  assume "m \<le> 0"
  with False have m: "m < 0" "p < m" by simp_all
  define r where "r = fdiv p m"
  from m have "1 \<le> p / m" by (simp add: field_simps)
  then have "fl 1 \<le> fl (p / m)" by (rule fl_mono)
  then have r: "1 \<le> r" by (simp add: r_def fdiv_def fl_half_facts)
  then have "1 / 2 \<le> r - 1 / 2" by simp
  then have "fl (1 / 2) \<le> fsub r (1 / 2)" unfolding fsub_def by (rule fl_mono)
  then have "1 \<le> fsub r (1 / 2) / (1 / 2)" by (simp add: fl_half_facts)
  then have "fl 1 \<le> fdiv (fsub r (1 / 2)) (1 / 2)" unfolding fdiv_def by (rule fl_mono)
  then have "1 - fdiv (fsub r (1 / 2)) (1 / 2) \<le> 0" by (simp add: fl_half_facts)
  then have "fsub 1 (fdiv (fsub r (1 / 2)) (1 / 2)) \<le> fl 0" unfolding fsub_def by (rule fl_mono)
  then have "100 * fsub 1 (fdiv (fsub r (1 / 2)) (1 / 2)) \<le> 0" by simp
  then have "fmul 100 (fsub 1 (fdiv (fsub r (1 / 2)) (1 / 2))) \<le> fl 0"
    unfolding fmul_def by (rule fl_mono)
  then have "max 0 (min 100 (fmul 100 (fsub 1 (fdiv (fsub r (1 / 2)) (1 / 2))))) = 0"
    by simp
  moreover from r have "\<not> r \<le> 1 / 2" by simp
  ultimately show ?thesis
    using m unfolding calculateMSRPScore_def Let_def r_def [symmetric] by simp
qed

text \<open>
  C6.  The MSRP score is 0 when the MSRP is 0; for a positive MSRP it is 100 when the
  price is at most half the MSRP; it is 0 when the price is at least the MSRP; between
  the two it is \<open>100 * (1 - (price / msrp - 0.5) / 0.5)\<close>, every operation rounded to
  a double, clamped to 0..100, which at three quarters of the MSRP is exactly 50.
\<close>

theorem calculateMSRPScore_anchors:
  "(m = 0 \<longrightarrow> calculateMSRPScore p m = 0)
   \<and> (0 < m \<and> p \<le> m / 2 \<longrightarrow> calculateMSRPScore p m = 100)
   \<and> (m \<le> p \<longrightarrow> calculateMSRPScore p m = 0)
   \<and> (0 < m \<and> m / 2 < p \<and> p < m \<longrightarrow>
        calculateMSRPScore p m =
          max 0 (min 100 (fmul 100 (fsub 1 (fdiv (fsub (fdiv p m) (1 / 2)) (1 / 2))))))
   \<and> (0 < m \<longrightarrow> calculateMSRPScore (3 / 4 * m) m = 50)"
proof -
  have a: "calculateMSRPScore p m = 0" if "m = 0"
    using that by (simp add: calculateMSRPScore_def)
  have b: "calculateMSRPScore p m = 100" if "0 < m" "p \<le> m / 2"
  proof -
    from that have "p < m" "p / m \<le> 1 / 2" by (simp_all add: field_simps)
    from fl_mono [OF this(2)] have "fdiv p m \<le> 1 / 2" by (simp add: fdiv_def fl_half_facts)
    with that \<open>p < m\<close> show ?thesis by (simp add: calculateMSRPScore_def)
  qed
  have c: "calculateMSRPScore p m = 0" if "m \<le> p"
    using that by (simp add: calculateMSRPScore_def)
  have d: "calculateMSRPScore p m =
      max 0 (min 100 (fmul 100 (fsub 1 (fdiv (fsub (fdiv p m) (1 / 2)) (1 / 2)))))"
    if "0 < m" "m / 2 < p" "p < m"
  proof (cases "fdiv p m \<le> 1 / 2")
    case False
    with that show ?thesis by (simp add: calculateMSRPScore_def Let_def)
  next
    case True
    from that have "1 / 2 \<le> p / m" by (simp add: field_simps)
    from fl_mono [OF this] have "1 / 2 \<le> fdiv p m" by (simp add: fdiv_def fl_half_facts)
    with True have r: "fdiv p m = 1 / 2" by simp
    have "fmul 100 (fsub 1 (fdiv (fsub (1 / 2) (1 / 2)) (1 / 2))) = 100"
      by (simp add: fsub_def fdiv_def fmul_def fl_half_facts)
    then have "max 0 (min 100 (fmul 100 (fsub 1 (fdiv (fsub (fdiv p m) (1 / 2)) (1 / 2)))))
        = 100"
      unfolding r by simp
    moreover from that True have "calculateMSRPScore p m = 100"
      by (simp add: calculateMSRPScore_def Let_def)
    ultimately show ?thesis by simp
  qed
  have e: "calculateMSRPScore (3 / 4 * m) m = 50" if "0 < m"
  proof -
    from that have lt: "\<not> m \<le> 3 / 4 * m" by simp
    from that have r: "fdiv (3 / 4 * m) m = 3 / 4" by (simp add: fdiv_def fl_half_facts)
    have s: "fmul 100 (fsub 1 (fdiv (fsub (3 / 4) (1 / 2)) (1 / 2))) = 50"
      by (simp add: fsub_def fdiv_def fmul_def fl_half_facts)
    from that lt show ?thesis unfolding calculateMSRPScore_def Let_def r s by simp
  qed
  from a b c d e show ?thesis by blast
qed

text \<open>
  An unknown MSRP, and prices of 400 and 1000 against 999, 900 and 750 against 1000.  At
  900 the doubles give \<open>19.999999999999996\<close>, one step below 20.
\<close>

theorem calculateMSRPScore_anchors_witness:
  "calculateMSRPScore 400 0 = 0 \<and> calculateMSRPScore 400 999 = 100
   \<and> calculateMSRPScore 1000 999 = 0
   \<and> calculateMSRPScore 900 1000 = 5629499534213119 / 2 ^ 48
   \<and> calculateMSRPScore 900 1000 < 20
   \<and> calculateMSRPScore 750 1000 = 50"
proof -
  have r: "fdiv 900 1000 = 8106479329266893 / 2 ^ 53" by (simp add: fl_eval)
  have s: "fsub (8106479329266893 / 2 ^ 53) (1 / 2) = 3602879701896397 / 2 ^ 53"
    by (simp add: fl_eval)
  have t: "fdiv (3602879701896397 / 2 ^ 53) (1 / 2) = 3602879701896397 / 2 ^ 52"
    by (simp add: fl_eval)
  have u: "fsub 1 (3602879701896397 / 2 ^ 52) = 900719925474099 / 2 ^ 52"
    by (simp add: fl_eval)
  have v: "fmul 100 (900719925474099 / 2 ^ 52) = 5629499534213119 / 2 ^ 48"
    by (simp add: fl_eval)
  have w: "max 0 (min 100 (fmul 100 (fsub 1 (fdiv (fsub (fdiv 900 1000) (1 / 2)) (1 / 2)))))
      = 5629499534213119 / 2 ^ 48"
    unfolding r s t u v by simp
  from calculateMSRPScore_anchors [of 0 400] calculateMSRPScore_anchors [of 999 400] calculateMSRPScore_anchors [of 999 1000]
    calculateMSRPScore_anchors [of 1000 900] calculateMSRPScore_anchors [of 1000 750] w
  show ?thesis by simp
qed

text \<open>
  C7.  For a historical reference with \<open>min \<le> max\<close> the historical score is 100
  whenever \<open>min = max\<close>, 100 at every price up to \<open>min\<close>, 0 at every price from \<open>max\<close>
  on (when \<open>min < max\<close>), and does not increase as the price goes up from \<open>min\<close> to
  \<open>max\<close>.
\<close>

theorem calculateHistoricalScore_monotone:
  assumes "min' h \<le> max' h"
  shows "(min' h = max' h \<longrightarrow> calculateHistoricalScore p h = 100)
   \<and> (p \<le> min' h \<longrightarrow> calculateHistoricalScore p h = 100)
   \<and> (min' h < max' h \<and> max' h \<le> p \<longrightarrow> calculateHistoricalScore p h = 0)
   \<and> (min' h \<le> p \<and> p \<le> q \<and> q \<le> max' h \<longrightarrow>
        calculateHistoricalScore q h \<le> calculateHistoricalScore p h)"
proof -
  have a: "calculateHistoricalScore p h = 100" if "min' h = max' h"
    using that by (simp add: calculateHistoricalScore_def)
  have b: "calculateHistoricalScore p h = 100" if "p \<le> min' h"
    using that by (simp add: calculateHistoricalScore_def Let_def)
  have c: "calculateHistoricalScore p h = 0" if "min' h < max' h" "max' h \<le> p"
    using that by (simp add: calculateHistoricalScore_def Let_def)
  have range: "0 \<le> calculateHistoricalScore x h \<and> calculateHistoricalScore x h \<le> 100" for x
    by (simp add: calculateHistoricalScore_def Let_def)
  have d: "calculateHistoricalScore q h \<le> calculateHistoricalScore p h"
    if "min' h \<le> p" "p \<le> q" "q \<le> max' h"
  proof (cases "min' h = max' h \<or> p \<le> min' h")
    case True
    then have "calculateHistoricalScore p h = 100" using a b by blast
    with range [of q] show ?thesis by simp
  next
    case False
    with that have lt: "min' h < p" "min' h < max' h" "min' h < q" by simp_all
    show ?thesis
    proof (cases "max' h \<le> q")
      case True
      with lt have "calculateHistoricalScore q h = 0"
        by (simp add: calculateHistoricalScore_def Let_def)
      with range [of p] show ?thesis by simp
    next
      case False
      with that lt have in_p: "\<not> max' h \<le> p" "\<not> p \<le> min' h" "\<not> q \<le> min' h" by simp_all
      define w where "w = fsub (max' h) (min' h)"
      define x where "x = fdiv (fsub p (min' h)) w"
      define y where "y = fdiv (fsub q (min' h)) w"
      from lt have "0 < w" unfolding w_def fsub_def by (intro fl_pos) simp
      moreover from that have "fsub p (min' h) \<le> fsub q (min' h)"
        unfolding fsub_def by (intro fl_mono) simp
      ultimately have "fsub p (min' h) / w \<le> fsub q (min' h) / w"
        by (intro divide_right_mono) simp_all
      then have "x \<le> y" unfolding x_def y_def fdiv_def by (rule fl_mono)
      then have "fsub 1 y \<le> fsub 1 x" unfolding fsub_def by (intro fl_mono) simp
      then have "fmul 100 (fsub 1 y) \<le> fmul 100 (fsub 1 x)"
        unfolding fmul_def by (intro fl_mono) simp
      then have "max 0 (min 100 (fmul 100 (fsub 1 y))) \<le> max 0 (min 100 (fmul 100 (fsub 1 x)))"
        by (intro max.mono min.mono) simp_all
      with False in_p lt show ?thesis
        unfolding x_def y_def w_def by (simp add: calculateHistoricalScore_def Let_def)
    qed
  qed
  from a b c d show ?thesis by blast
qed

text \<open>The iPhone reference (400 to 1200) and a reference whose \<open>min\<close> and \<open>max\<close> are 500.\<close>

theorem calculateHistoricalScore_monotone_witness:
  "min' iphone_prices \<le> max' iphone_prices
   \<and> calculateHistoricalScore 400 iphone_prices = 100
   \<and> calculateHistoricalScore 1200 iphone_prices = 0
   \<and> calculateHistoricalScore 1000 iphone_prices \<le> calculateHistoricalScore 600 iphone_prices
   \<and> calculateHistoricalScore 600 iphone_prices = 75
   \<and> calculateHistoricalScore 500 flat_prices = 100"
proof -
  have h: "min' iphone_prices \<le> max' iphone_prices" by (simp add: iphone_prices_def)
  have f: "min' flat_prices \<le> max' flat_prices" by (simp add: flat_prices_def)
  have k: "fsub 600 400 = 200" "fsub 1200 400 = 800" "fdiv 200 800 = 1 / 4"
    "fsub 1 (1 / 4) = 3 / 4" "fmul 100 (3 / 4) = 75"
    by (simp_all add: fl_eval)
  have "fmul 100 (fsub 1 (fdiv (fsub 600 400) (fsub 1200 400))) = 75"
    by (simp only: k)
  then have v: "calculateHistoricalScore 600 iphone_prices = 75"
    by (simp add: calculateHistoricalScore_def iphone_prices_def)
  from calculateHistoricalScore_monotone [OF h, of 400 400] calculateHistoricalScore_monotone [OF h, of 1200 1200] calculateHistoricalScore_monotone [OF h, of 600 1000]
    calculateHistoricalScore_monotone [OF f, of 500 500] h v
  show ?thesis by (simp add: iphone_prices_def flat_prices_def)
qed

section \<open>Claims about product keys\<close>

lemma includes_str_iff: "includes_str s kw \<longleftrightarrow> (\<exists>p q. s = p @ kw @ q)"
proof (induction s)
  case Nil
  then show ?case by auto
next
  case (Cons c cs)
  show ?case
  proof
    assume "includes_str (c # cs) kw"
    then consider "take (length kw) (c # cs) = kw" | "includes_str cs kw" by auto
    then show "\<exists>p q. c # cs = p @ kw @ q"
    proof cases
      case 1
      then have "c # cs = [] @ kw @ drop (length kw) (c # cs)"
        by (metis append_Nil append_take_drop_id)
      then show ?thesis by blast
    next
      case 2
      with Cons.IH obtain p q where "cs = p @ kw @ q" by blast
      then have "c # cs = (c # p) @ kw @ q" by simp
      then show ?thesis by blast
    qed
  next
    assume "\<exists>p q. c # cs = p @ kw @ q"
    then obtain p q where pq: "c # cs = p @ kw @ q" by blast
    show "includes_str (c # cs) kw"
    proof (cases p)
      case Nil
      with pq have "take (length kw) (c # cs) = kw" by simp
      then show ?thesis by simp
    next
      case (Cons a p')
      with pq have "cs = p' @ kw @ q" by simp
      with Cons.IH have "includes_str cs kw" by blast
      then show ?thesis by simp
    qed
  qed
qed

lemma find_keywords:
  "find P known_keywords =
     (if P ''iphone'' then Some ''iphone'' else if P ''macbook'' then Some ''macbook''
      else if P ''ps5'' then Some ''ps5'' else if P ''laptop'' then Some ''laptop''
      else if P ''tv'' then Some ''tv'' else None)"
  by (simp add: known_keywords_def)

text \<open>
  With any lower-casing: the keywords are tried in their fixed order on the lower-cased
  title, and the fallback is the lower-cased text before the first space character,
  \<open>unknown\<close> when that text is empty.
\<close>

lemma extractProductKey_find:
  "extractProductKey lower t =
     (case find (\<lambda>k. includes_str (lower t) k) known_keywords of
        Some k \<Rightarrow> k
      | None \<Rightarrow> (if takeWhile (\<lambda>c. c \<noteq> CHR '' '') t = [] then ''unknown''
                 else lower (takeWhile (\<lambda>c. c \<noteq> CHR '' '') t)))"
  by (simp add: extractProductKey_def find_keywords Let_def split_first_def)

lemma extractProductKey_laptop_before_tv:
  assumes "includes_str (lower t) ''laptop''" and "\<not> includes_str (lower t) ''iphone''"
    and "\<not> includes_str (lower t) ''macbook''" and "\<not> includes_str (lower t) ''ps5''"
  shows "extractProductKey lower t = ''laptop''"
  using assms by (simp add: extractProductKey_def)

lemma space_is_whitespace: "is_whitespace CHR '' ''"
  by (simp add: is_whitespace_def)

lemma first_token_agrees:
  assumes "\<forall>c\<in>set t. is_whitespace c \<longrightarrow> c = CHR '' ''" and "t \<noteq> []" and "hd t \<noteq> CHR '' ''"
  shows "spec_first_token t = takeWhile (\<lambda>c. c \<noteq> CHR '' '') t"
    and "takeWhile (\<lambda>c. c \<noteq> CHR '' '') t \<noteq> []"
proof -
  from assms obtain c cs where t: "t = c # cs" "c \<noteq> CHR '' ''" by (cases t) auto
  with assms(1) have "\<not> is_whitespace c" by auto
  then have "dropWhile is_whitespace t = t" by (simp add: t)
  moreover have "takeWhile (\<lambda>c. \<not> is_whitespace c) t = takeWhile (\<lambda>c. c \<noteq> CHR '' '') t"
    using assms(1) space_is_whitespace by (intro takeWhile_cong) auto
  ultimately show "spec_first_token t = takeWhile (\<lambda>c. c \<noteq> CHR '' '') t"
    by (simp add: spec_first_token_def)
  from t show "takeWhile (\<lambda>c. c \<noteq> CHR '' '') t \<noteq> []" by simp
qed

text \<open>
  On a title that does not begin with a space and has no white space other than spaces,
  the code returns what the specification's wording returns.
\<close>

lemma extractProductKey_agrees:
  assumes "\<forall>c\<in>set t. is_whitespace c \<longrightarrow> c = CHR '' ''" and "t \<noteq> [] \<longrightarrow> hd t \<noteq> CHR '' ''"
  shows "extractProductKey lower t = spec_extractProductKey lower t"
proof (cases "t = []")
  case True
  then show ?thesis by (simp add: extractProductKey_find spec_extractProductKey_def)
next
  case False
  with assms first_token_agrees [of t] show ?thesis
    by (simp add: extractProductKey_find spec_extractProductKey_def split: option.splits)
qed

lemma extractProductKey_ascii_checks:
  "extractProductKey ascii_toLowerCase ''Smart TV and Laptop bundle'' = ''laptop''"
  "extractProductKey ascii_toLowerCase [] = ''unknown''"
  "extractProductKey ascii_toLowerCase ''Vintage Camera'' = ''vintage''"
  "spec_extractProductKey ascii_toLowerCase ''Vintage Camera'' = ''vintage''"
  by (simp_all add: extractProductKey_def spec_extractProductKey_def spec_first_token_def
      is_whitespace_def known_keywords_def ascii_toLowerCase_def ascii_toLowerCase_char_def
      Let_def split_first_def)

text \<open>
  C8.  The claim's fallback, the lower-cased first whitespace-delimited token of the
  title, is not what \<open>extractProductKey\<close> returns on every title.  The title " Radio" is
  not empty and contains no keyword, its first whitespace-delimited token is "Radio",
  and the key returned is "unknown", where the claim gives "radio".  In the title
  "Old<TAB>Radio" the first whitespace-delimited token is "Old", and the key returned is
  the whole lower-cased title, where the claim gives "old".  Both titles are ASCII, where
  \<open>toLowerCase\<close> is \<open>ascii_toLowerCase\<close>.
\<close>

theorem extractProductKey_leading_space:
  "'' Radio'' \<noteq> []
   \<and> find (\<lambda>k. includes_str (ascii_toLowerCase '' Radio'') k) known_keywords = None
   \<and> spec_first_token '' Radio'' = ''Radio''
   \<and> extractProductKey ascii_toLowerCase '' Radio'' = ''unknown''
   \<and> spec_extractProductKey ascii_toLowerCase '' Radio'' = ''radio''
   \<and> find (\<lambda>k. includes_str (ascii_toLowerCase tabbed_title) k) known_keywords = None
   \<and> spec_first_token tabbed_title = ''Old''
   \<and> extractProductKey ascii_toLowerCase tabbed_title = ''old'' @ [CHR 0x09] @ ''radio''
   \<and> spec_extractProductKey ascii_toLowerCase tabbed_title = ''old''"
  by (simp add: extractProductKey_def spec_extractProductKey_def spec_first_token_def
      is_whitespace_def known_keywords_def ascii_toLowerCase_def ascii_toLowerCase_char_def
      Let_def split_first_def tabbed_title_def)

section \<open>Claims about the inventory\<close>

lemma update_as_map:
  "distinct (map fst al) \<Longrightarrow> map_of al k = Some v \<Longrightarrow>
     AList.update k (f v) al = map (\<lambda>(k', v'). (k', if k' = k then f v' else v')) al"
proof (induction al)
  case Nil
  then show ?case by simp
next
  case (Cons e al)
  obtain k0 v0 where e: "e = (k0, v0)" by (cases e)
  show ?case
  proof (cases "k0 = k")
    case True
    with Cons.prems e have v: "v0 = v" and notin: "k \<notin> fst ` set al" by auto
    from notin have "map (\<lambda>(k', v'). (k', if k' = k then f v' else v')) al = al"
      by (intro map_idI) (auto simp: image_iff)
    with True e v show ?thesis by simp
  next
    case False
    with Cons e show ?thesis by simp
  qed
qed

lemma relist_step:
  assumes "map_of (inventory s) (id' item) = Some v"
  shows "relist_loop clock n (item # rest) ls s b =
     relist_loop clock (Suc n) rest (ls @ [createReListing item (clock (2 * n))])
       \<lparr>inventory =
          AList.update (id' item)
            (v\<lparr>status := listed, listed_date := Some (clock (2 * n + 1)),
               resale_price := Some (estimated_resale item)\<rparr>)
            (inventory s),
        listedIds = set_add (id' item) (listedIds s)\<rparr>
       (b(id' item \<mapsto>
          v\<lparr>status := listed, listed_date := Some (clock (2 * n + 1)),
            resale_price := Some (estimated_resale item)\<rparr>))"
  using assms by (simp add: updateItemStatus_def Let_def update_conv')

lemma relist_loop_ok:
  assumes "distinct (map fst (inventory s))"
    and "\<forall>it\<in>set items. id' it \<in> fst ` set (inventory s)"
  shows "\<exists>ls' s' b' F.
      relist_loop clock n items ls s b = Inr (ls @ ls', s', b')
      \<and> map id' ls' = map (\<lambda>it. ''resale_'' @ id' it) items
      \<and> map price ls' = map estimated_resale items
      \<and> inventory s' = map (\<lambda>(k, v). (k, F k v)) (inventory s)
      \<and> (\<forall>k v. id' (F k v) = id' v
             \<and> status (F k v) = (if k \<in> id' ` set items then listed else status v))"
  using assms
proof (induction items arbitrary: n ls s b)
  case Nil
  have "inventory s = map (\<lambda>(k, v). (k, (\<lambda>k v. v) k v)) (inventory s)" by simp
  then show ?case by (intro exI [of _ "[]"] exI [of _ s] exI [of _ b] exI [of _ "\<lambda>k v. v"]) simp
next
  case (Cons item rest)
  let ?k = "id' item"
  let ?f = "\<lambda>v::InventoryItem. v\<lparr>status := listed, listed_date := Some (clock (2 * n + 1)),
               resale_price := Some (estimated_resale item)\<rparr>"
  from Cons.prems(2) have "?k \<in> fst ` set (inventory s)" by simp
  then obtain v where v: "map_of (inventory s) ?k = Some v"
    by (metis domD dom_map_of_conv_image_fst)
  let ?G = "\<lambda>k' v'. if k' = ?k then ?f v' else v'"
  let ?s2 = "\<lparr>inventory = AList.update ?k (?f v) (inventory s),
              listedIds = set_add ?k (listedIds s)\<rparr>"
  have inv2: "inventory ?s2 = map (\<lambda>(k', v'). (k', ?G k' v')) (inventory s)"
    using update_as_map [OF Cons.prems(1) v, of ?f] by simp
  then have keys2: "map fst (inventory ?s2) = map fst (inventory s)"
    by (simp add: case_prod_unfold comp_def)
  with Cons.prems have d2: "distinct (map fst (inventory ?s2))"
    and p2: "\<forall>it\<in>set rest. id' it \<in> fst ` set (inventory ?s2)"
    by (simp_all only: set_map [symmetric]) simp_all
  from Cons.IH [OF d2 p2, of "Suc n" "ls @ [createReListing item (clock (2 * n))]"
      "b(?k \<mapsto> ?f v)"]
  obtain ls' s' b' F where
    run: "relist_loop clock (Suc n) rest (ls @ [createReListing item (clock (2 * n))]) ?s2
            (b(?k \<mapsto> ?f v)) = Inr ((ls @ [createReListing item (clock (2 * n))]) @ ls', s', b')"
    and ids: "map id' ls' = map (\<lambda>it. ''resale_'' @ id' it) rest"
    and prices: "map price ls' = map estimated_resale rest"
    and inv: "inventory s' = map (\<lambda>(k, v). (k, F k v)) (inventory ?s2)"
    and F: "\<forall>k v. id' (F k v) = id' v
             \<and> status (F k v) = (if k \<in> id' ` set rest then listed else status v)"
    by blast
  let ?H = "\<lambda>k v. F k (?G k v)"
  have a: "relist_loop clock n (item # rest) ls s b
      = Inr (ls @ (createReListing item (clock (2 * n)) # ls'), s', b')"
    using relist_step [OF v, of clock n rest ls b] run by simp
  have b: "map id' (createReListing item (clock (2 * n)) # ls')
      = map (\<lambda>it. ''resale_'' @ id' it) (item # rest)"
    using ids by (simp add: createReListing_def)
  have c: "map price (createReListing item (clock (2 * n)) # ls')
      = map estimated_resale (item # rest)"
    using prices by (simp add: createReListing_def)
  have d: "inventory s' = map (\<lambda>(k, v). (k, ?H k v)) (inventory s)"
    unfolding inv inv2 by (simp add: case_prod_unfold comp_def)
  have e: "\<forall>k v. id' (?H k v) = id' v
             \<and> status (?H k v) = (if k \<in> id' ` set (item # rest) then listed else status v)"
    using F by auto
  show ?case
    by (intro exI [of _ "createReListing item (clock (2 * n)) # ls'"] exI [of _ s']
        exI [of _ b'] exI [of _ ?H] conjI a b c d e)
qed

lemma keyed_purchased:
  assumes "keyed_by_id state" and "(k, v) \<in> set (inventory state)"
  shows "k \<in> id' ` set (filter (\<lambda>it. status it = purchased) (map snd (inventory state)))
           \<longleftrightarrow> status v = purchased"
proof
  assume "k \<in> id' ` set (filter (\<lambda>it. status it = purchased) (map snd (inventory state)))"
  then obtain k2 it where it: "(k2, it) \<in> set (inventory state)" "status it = purchased" "id' it = k"
    by auto
  with assms(1) have "k2 = k" by (auto simp: keyed_by_id_def list_all_iff)
  with it assms have "it = v"
    by (metis keyed_by_id_def distinct_map inj_on_def fst_conv snd_conv)
  with it show "status v = purchased" by simp
next
  assume "status v = purchased"
  moreover from assms have "id' v = k" by (auto simp: keyed_by_id_def list_all_iff)
  ultimately show "k \<in> id' ` set (filter (\<lambda>it. status it = purchased) (map snd (inventory state)))"
    using assms(2) by force
qed

lemma set_update_subset: "set (AList.update k v al) \<subseteq> insert (k, v) (set al)"
  by (induction al) auto

lemma keyed_empty: "keyed_by_id \<lparr>inventory = [], listedIds = []\<rparr>"
  by (simp add: keyed_by_id_def)

lemma keyed_processNewPurchase:
  assumes "keyed_by_id state"
  shows "keyed_by_id (fst (snd (processNewPurchase item state b now)))"
proof -
  let ?it = "EvaluatedListing.extend item (InventoryItem.fields now purchased None None)"
  have i: "id' ?it = id' item"
    by (simp add: EvaluatedListing.defs InventoryItem.defs)
  have "list_all (\<lambda>(k, v). id' v = k) (AList.update (id' ?it) ?it (inventory state))"
    using assms set_update_subset [of "id' ?it" ?it "inventory state"]
    by (auto simp: keyed_by_id_def list_all_iff)
  with assms show ?thesis
    by (simp add: processNewPurchase_def addToInventory_def keyed_by_id_def Let_def
        distinct_update)
qed

text \<open>
  C9.  On an inventory keyed by listing id, \<open>relistItems\<close> returns one re-listing for
  each item whose status is \<open>purchased\<close>, in inventory order, with id "resale_" followed
  by the item's id and with the item's estimated resale value as price; afterwards those
  items are \<open>listed\<close> and every other item has the status it had, under the same keys.
  A second sweep on the result returns the empty list and changes nothing.
\<close>

theorem relistItems_idempotent:
  assumes "keyed_by_id state"
  shows "\<exists>ls s1 b1.
      relistItems state b clock = Inr (ls, s1, b1)
      \<and> map id' ls = map (\<lambda>it. ''resale_'' @ id' it)
                        (filter (\<lambda>it. status it = purchased) (map snd (inventory state)))
      \<and> map price ls = map estimated_resale
                        (filter (\<lambda>it. status it = purchased) (map snd (inventory state)))
      \<and> map fst (inventory s1) = map fst (inventory state)
      \<and> map (\<lambda>(k, v). id' v) (inventory s1) = map (\<lambda>(k, v). id' v) (inventory state)
      \<and> map (\<lambda>(k, v). status v) (inventory s1)
          = map (\<lambda>(k, v). if status v = purchased then listed else status v) (inventory state)
      \<and> relistItems s1 b1 clock' = Inr ([], s1, b1)"
proof -
  let ?P = "filter (\<lambda>it. status it = purchased) (map snd (inventory state))"
  from assms have d: "distinct (map fst (inventory state))"
    and keyed: "\<forall>(k, v)\<in>set (inventory state). id' v = k"
    by (simp_all add: keyed_by_id_def list_all_iff)
  have present: "\<forall>it\<in>set ?P. id' it \<in> fst ` set (inventory state)"
    using keyed by force
  from relist_loop_ok [OF d present, of clock 0 "[]" b]
  obtain ls s1 b1 F where
    run: "relist_loop clock 0 ?P [] state b = Inr (ls, s1, b1)"
    and ids: "map id' ls = map (\<lambda>it. ''resale_'' @ id' it) ?P"
    and prices: "map price ls = map estimated_resale ?P"
    and inv: "inventory s1 = map (\<lambda>(k, v). (k, F k v)) (inventory state)"
    and F: "\<forall>k v. id' (F k v) = id' v
             \<and> status (F k v) = (if k \<in> id' ` set ?P then listed else status v)"
    by auto
  have first: "relistItems state b clock = Inr (ls, s1, b1)"
    using run by (simp add: relistItems_def)
  have keys: "map fst (inventory s1) = map fst (inventory state)"
    unfolding inv by (simp add: case_prod_unfold comp_def)
  have idents: "map (\<lambda>(k, v). id' v) (inventory s1) = map (\<lambda>(k, v). id' v) (inventory state)"
    unfolding inv using F by (simp add: case_prod_unfold comp_def)
  have statuses: "map (\<lambda>(k, v). status v) (inventory s1)
          = map (\<lambda>(k, v). if status v = purchased then listed else status v) (inventory state)"
  proof -
    have "map (\<lambda>(k, v). status v) (map (\<lambda>(k, v). (k, F k v)) (inventory state))
        = map (\<lambda>(k, v). status (F k v)) (inventory state)"
      by (simp add: case_prod_unfold comp_def)
    also have "\<dots> = map (\<lambda>(k, v). if status v = purchased then listed else status v)
        (inventory state)"
    proof (rule map_cong [OF refl])
      fix x assume x: "x \<in> set (inventory state)"
      obtain k v where kv: "x = (k, v)" by (cases x)
      from keyed_purchased [OF assms, of k v] x kv F
      show "(case x of (k, v) \<Rightarrow> status (F k v))
          = (case x of (k, v) \<Rightarrow> if status v = purchased then listed else status v)"
        by simp
    qed
    finally show ?thesis unfolding inv .
  qed
  have "\<forall>(k, v)\<in>set (inventory s1). status v \<noteq> purchased"
  proof -
    have "set (map (\<lambda>(k, v). status v) (inventory s1)) \<subseteq> {listed, sold}"
      unfolding statuses by (auto split: if_splits) (metis item_status.exhaust)
    then show ?thesis by fastforce
  qed
  then have "filter (\<lambda>it. status it = purchased) (map snd (inventory s1)) = []"
    by (auto simp: filter_empty_conv)
  then have second: "relistItems s1 b1 clock' = Inr ([], s1, b1)"
    by (simp add: relistItems_def)
  from first ids prices keys idents statuses second show ?thesis by blast
qed

text \<open>
  An inventory of four items, two of them purchased: the first sweep lists both, the
  second returns nothing.
\<close>

lemma shelf_keyed: "keyed_by_id shelf"
  by (simp add: keyed_by_id_def shelf_def mk_stock_def)

lemma shelf_run:
  "(case relistItems shelf Map.empty noon of
      Inl e \<Rightarrow> False
    | Inr (ls, s1, b1) \<Rightarrow>
        map id' ls = [''resale_a'', ''resale_d''] \<and> map price ls = [250, 180]
        \<and> map (\<lambda>(k, v). status v) (inventory s1) = [listed, listed, sold, listed]
        \<and> listedIds s1 = [''b'', ''a'', ''d'']
        \<and> relistItems s1 b1 noon = Inr ([], s1, b1))"
  by (simp add: relistItems_def shelf_def mk_stock_def noon_def updateItemStatus_def
      createReListing_def set_add_def Let_def)

theorem relistItems_idempotent_witness:
  "keyed_by_id shelf
   \<and> (case relistItems shelf Map.empty noon of
        Inl e \<Rightarrow> False
      | Inr (ls, s1, b1) \<Rightarrow>
          map id' ls = [''resale_a'', ''resale_d''] \<and> map price ls = [250, 180]
          \<and> map (\<lambda>(k, v). status v) (inventory s1) = [listed, listed, sold, listed]
          \<and> relistItems s1 b1 noon = Inr ([], s1, b1))"
  using relistItems_idempotent [OF shelf_keyed, of Map.empty noon noon] shelf_keyed shelf_run
  by (auto split: sum.splits)

end
